theory Spec2Isabelle
  imports Complex_Main
begin

section \<open>Values, errors and the test document\<close>

text \<open>
  Opaque JSON payloads (action params, action outputs) are values of \<open>json\<close>.
  A Python exception is a value of \<open>error\<close>; every function that can raise returns
  \<open>error + 'a\<close> with \<open>Inl\<close> for the raised exception.
\<close>

datatype json =
    JNull
  | JBool bool
  | JNum int
  | JStr string
  | JList "json list"
  | JObj "(string \<times> json) list"

datatype error =
    AssertionError string
  | ValueError string
  | TypeError string
  | RuntimeError string
  | KeyError string
  | ValidationError string
  | APIError string
  | NotFound string
  | ApiException string

text \<open>\<open>str(err)\<close>: the message the exception was raised with.\<close>

fun str :: "error \<Rightarrow> string" where
  "str (AssertionError m) = m"
| "str (ValueError m) = m"
| "str (TypeError m) = m"
| "str (RuntimeError m) = m"
| "str (KeyError m) = m"
| "str (ValidationError m) = m"
| "str (APIError m) = m"
| "str (NotFound m) = m"
| "str (ApiException m) = m"

text \<open>A text between single quotes, as the f-strings of the error messages write it.\<close>

definition quoted :: "string \<Rightarrow> string" where
  "quoted s = [CHR 0x27] @ s @ [CHR 0x27]"

text \<open>
  An Assert and an Action are Python dicts; a key that may be absent is an \<open>option\<close>
  field (\<open>d.get(k)\<close> is the field, \<open>d[k]\<close> raises \<open>KeyError\<close> on \<open>None\<close>).
\<close>

record asrt =
  asrt_type :: "string option"
  asrt_name :: "string option"
  asrt_params :: "json option"

record action =
  action_type :: "string option"
  action_name :: "string option"
  action_params :: "json option"
  action_asserts :: "asrt list option"

text \<open>AssertResult / AssertStatus: \<open>{passed, actual, expected, description}\<close>.\<close>

record assert_status =
  passed :: bool
  actual :: "string option"
  expected :: "string option"
  description :: "string option"

section \<open>messaging.py: the gRPC shim\<close>

text \<open>
  The transport is a parameter: \<open>channel\<close> gives, for a runner address, the stub whose
  three calls either reply or raise \<open>grpc.RpcError\<close> (\<open>Inl\<close>, with its \<open>code()\<close> and
  \<open>details()\<close>). \<open>json.dumps\<close> and \<open>json.loads\<close> are parameters as well; \<open>loads\<close> gives
  \<open>None\<close> where Python raises \<open>JSONDecodeError\<close>, a \<open>ValueError\<close>.
\<close>

record rpc_error =
  code :: string
  details :: "string option"

record request =
  request_type :: string
  request_params :: string

record action_reply =
  outputs :: string

record assert_reply =
  reply_passed :: bool
  reply_actual :: string
  reply_expected :: string
  reply_description :: string

record healthcheck_reply =
  ready :: bool

record stub =
  Action :: "request \<Rightarrow> rpc_error + action_reply"
  Assert :: "request \<Rightarrow> rpc_error + assert_reply"
  Healthcheck :: "rpc_error + healthcheck_reply"

record transport =
  channel :: "string \<Rightarrow> stub"
  dumps :: "json \<Rightarrow> string"
  loads :: "string \<Rightarrow> json option"

definition send_action :: "transport \<Rightarrow> string \<Rightarrow> action \<Rightarrow> error + json" where
  "send_action tr runner_address act =
     (case action_type act of
        None \<Rightarrow> Inl (KeyError ''type'')
      | Some t \<Rightarrow>
          (case action_params act of
             None \<Rightarrow> Inl (KeyError ''params'')
           | Some p \<Rightarrow>
               (case Action (channel tr runner_address)
                       \<lparr>request_type = t, request_params = dumps tr p\<rparr> of
                  Inr response \<Rightarrow>
                    (case loads tr (outputs response) of
                       None \<Rightarrow> Inl (ValueError ''JSONDecodeError'')
                     | Some v \<Rightarrow> Inr v)
                | Inl err \<Rightarrow> Inr (JObj []))))"

definition send_assert :: "transport \<Rightarrow> string \<Rightarrow> asrt \<Rightarrow> error + assert_status" where
  "send_assert tr runner_address a =
     (case asrt_type a of
        None \<Rightarrow> Inl (KeyError ''type'')
      | Some t \<Rightarrow>
          (case asrt_params a of
             None \<Rightarrow> Inl (KeyError ''params'')
           | Some p \<Rightarrow>
               (case Assert (channel tr runner_address)
                       \<lparr>request_type = t, request_params = dumps tr p\<rparr> of
                  Inr response \<Rightarrow>
                    Inr \<lparr>passed = reply_passed response,
                         actual = Some (reply_actual response),
                         expected = Some (reply_expected response),
                         description = Some (reply_description response)\<rparr>
                | Inl err \<Rightarrow>
                    Inr \<lparr>passed = False, actual = None, expected = None,
                         description = details err\<rparr>)))"

definition runner_healthcheck :: "transport \<Rightarrow> string \<Rightarrow> bool" where
  "runner_healthcheck tr runner_address =
     (case Healthcheck (channel tr runner_address) of
        Inr response \<Rightarrow> ready response
      | Inl err \<Rightarrow> False)"

section \<open>testing.py: state, test configuration and the engine's collaborators\<close>

text \<open>
  \<open>Statuses\<close> maps an assert name to its status, \<open>ActionsData\<close> an action name to
  \<open>{outputs, asserts}\<close>. The state maps a test name to the dict
  \<open>{actions, asserts, summary}\<close> of that test.
\<close>

type_synonym statuses = "string \<rightharpoonup> assert_status"

record action_data =
  data_outputs :: "json option"
  data_asserts :: "statuses option"

type_synonym actions_data = "string \<rightharpoonup> action_data"

record test_summary =
  summary_description :: "string option"
  completed_cycles :: int
  remaining_asserts :: "string list"
  summary_error :: "string option"
  duration :: int
  summary_filename :: "string option"

record entry =
  entry_actions :: "actions_data option"
  entry_asserts :: "statuses option"
  entry_summary :: "test_summary option"

text \<open>
  The per-test dicts are objects shared by reference: the store \<open>heap\<close> holds them, an
  address is an index into it, and a state dict maps a test name to the address of its
  entry. \<open>snapshot\<close> is a state with the entries read out of the store.
\<close>

type_synonym heap = "entry list"

type_synonym state = "string \<rightharpoonup> nat"

type_synonym snapshot = "string \<rightharpoonup> entry"

definition deref :: "heap \<Rightarrow> state \<Rightarrow> snapshot" where
  "deref h st = (\<lambda>n. case st n of None \<Rightarrow> None | Some a \<Rightarrow> Some (h ! a))"

record volume =
  source :: string
  destination :: string

record test_config =
  config_name :: string
  config_description :: "string option"
  config_filename :: "string option"
  config_runner :: "string option"
  config_image :: "string option"
  config_config :: "(string \<times> string) list option"
  config_runnerCount :: "int option"
  config_volumes :: "volume list option"
  config_cycles :: "int option"
  config_secondsBetweenActions :: "rat option"
  config_secondsBetweenAsserts :: "rat option"
  config_secondsBetweenCycles :: "rat option"
  config_timeout :: "int option"
  config_actionDistributionStrategy :: "string option"
  config_assertDistributionStrategy :: "string option"
  config_actions :: "action list option"
  config_asserts :: "asrt list option"

text \<open>
  What testing.py imports from modules that are not among the sources, and what it asks
  of the task runtime, are fields of \<open>engine\<close>; \<open>'w\<close> is the world outside the
  engine (runners, the shared flag, the clock), threaded through every call that touches
  it. \<open>run_actions\<close> and \<open>run_asserts\<close> run a list of items on one hostname and may
  raise; \<open>new_signal\<close> makes the name \<open>keep-going-<uuid>\<close> of a fresh shared flag,
  \<open>set_signal\<close> sets a flag and \<open>keep_going\<close> reads it (the deadline task of
  \<open>run_test_with_timeout\<close>, which clears the flag when the time is up, is part of the
  world); \<open>clock\<close> is the time in seconds.
\<close>

record 'w engine =
  run_actions :: "action list \<Rightarrow> snapshot \<Rightarrow> string \<Rightarrow> rat \<Rightarrow> 'w \<Rightarrow> (error + actions_data) \<times> 'w"
  run_asserts :: "asrt list \<Rightarrow> snapshot \<Rightarrow> string \<Rightarrow> rat \<Rightarrow> 'w \<Rightarrow> (error + statuses) \<times> 'w"
  combine_action_data :: "actions_data \<Rightarrow> actions_data \<Rightarrow> actions_data"
  combine_data_by_key :: "statuses \<Rightarrow> statuses \<Rightarrow> statuses"
  create_item_name :: "string \<Rightarrow> string list \<Rightarrow> string"
  new_signal :: "'w \<Rightarrow> string \<times> 'w"
  set_signal :: "string \<Rightarrow> bool \<Rightarrow> 'w \<Rightarrow> 'w"
  keep_going :: "string \<Rightarrow> 'w \<Rightarrow> bool \<times> 'w"
  sleep :: "rat \<Rightarrow> 'w \<Rightarrow> 'w"
  clock :: "'w \<Rightarrow> int"

text \<open>
  Modelled from the spec: \<open>get_remaining_asserts\<close> of cicada2.shared.asserts is not among
  the sources. The spec gives it as
  \<open>[a in asserts where statuses[a.name].passed != true]\<close>, an assert being satisfied when
  the status recorded under its name has \<open>passed = true\<close>. An assert with no status
  recorded under its name (or with no name) is not satisfied.
\<close>

definition satisfied :: "statuses \<Rightarrow> asrt \<Rightarrow> bool" where
  "satisfied sts a =
     (case asrt_name a of
        None \<Rightarrow> False
      | Some n \<Rightarrow> (case sts n of None \<Rightarrow> False | Some s \<Rightarrow> passed s))"

definition get_remaining_asserts :: "asrt list \<Rightarrow> statuses \<Rightarrow> asrt list" where
  "get_remaining_asserts asserts sts = filter (\<lambda>a. \<not> satisfied sts a) asserts"

section \<open>testing.py: cycle budget and the loop predicate\<close>

definition inner_asserts :: "action \<Rightarrow> asrt list" where
  \<comment> \<open>\<open>action.get("asserts", [])\<close>\<close>
  "inner_asserts act = (case action_asserts act of None \<Rightarrow> [] | Some xs \<Rightarrow> xs)"

definition action_has_asserts :: "action \<Rightarrow> bool" where
  "action_has_asserts act = (inner_asserts act \<noteq> [])"

definition actions_have_asserts :: "action list \<Rightarrow> bool" where
  "actions_have_asserts actions = (\<exists>act \<in> set actions. action_has_asserts act)"

definition get_default_cycles :: "action list \<Rightarrow> asrt list \<Rightarrow> int" where
  "get_default_cycles actions asserts =
     (if asserts \<noteq> [] \<or> actions_have_asserts actions then - 1
      else if actions \<noteq> [] then 1
      else 0)"

definition inner_statuses :: "actions_data \<Rightarrow> string \<Rightarrow> statuses" where
  \<comment> \<open>\<open>actions_data.get(name, {}).get("asserts", {})\<close>\<close>
  "inner_statuses actions_data n =
     (case actions_data n of
        None \<Rightarrow> Map.empty
      | Some d \<Rightarrow> (case data_asserts d of None \<Rightarrow> Map.empty | Some sts \<Rightarrow> sts))"

text \<open>
  The generator inside \<open>any(...)\<close> of \<open>continue_running\<close>: it reads \<open>action["name"]\<close> of
  each action in turn, which raises \<open>KeyError\<close> when the action has no name, and stops at
  the first action with a remaining inner assert.
\<close>

fun any_action_asserts_remain :: "action list \<Rightarrow> actions_data \<Rightarrow> error + bool" where
  "any_action_asserts_remain [] actions_data = Inr False"
| "any_action_asserts_remain (act # actions) actions_data =
     (case action_name act of
        None \<Rightarrow> Inl (KeyError ''name'')
      | Some n \<Rightarrow>
          if get_remaining_asserts (inner_asserts act) (inner_statuses actions_data n) \<noteq> []
          then Inr True
          else any_action_asserts_remain actions actions_data)"

definition continue_running ::
  "action list \<Rightarrow> asrt list \<Rightarrow> int \<Rightarrow> actions_data \<Rightarrow> statuses \<Rightarrow> error + bool" where
  "continue_running actions asserts remaining_cycles actions_data assert_statuses =
     (if asserts = [] \<and> \<not> actions_have_asserts actions \<and> remaining_cycles \<noteq> 0 then Inr True
      else if (asserts \<noteq> [] \<or> actions_have_asserts actions) \<and> remaining_cycles \<noteq> 0 then
        (if get_remaining_asserts asserts assert_statuses \<noteq> [] then Inr True
         else any_action_asserts_remain actions actions_data)
      else Inr False)"

definition statuses_of_action :: "actions_data \<Rightarrow> action \<Rightarrow> statuses" where
  \<comment> \<open>the inner-assert statuses recorded for an action, under the action's name\<close>
  "statuses_of_action actions_data act =
     (case action_name act of None \<Rightarrow> Map.empty | Some n \<Rightarrow> inner_statuses actions_data n)"

section \<open>testing.py: distribution strategies\<close>

text \<open>
  \<open>bag.from_sequence(xs).map(f).fold(binop, initial=init)\<close>: one task per element, the
  results folded with \<open>binop\<close>. On the task runtime the tasks run concurrently, in an
  order the scheduler chooses, every partition of the bag folds its results starting from
  \<open>init\<close>, and the partitions' results are then combined with \<open>binop\<close>. The model
  runs the tasks in sequence order, threads the world through them, lets the first task
  that raises end the computation, and folds the results from the left starting from
  \<open>init\<close> once. So the order of the calls across tasks is that of one schedule, and
  the merged value is the runtime's only where folding \<open>init\<close> in once or once per
  partition makes no difference; what a task is given (its hostname and its items) depends
  on neither.
\<close>

fun bag_fold ::
  "('d \<Rightarrow> 'd \<Rightarrow> 'd) \<Rightarrow> ('w \<Rightarrow> (error + 'd) \<times> 'w) list \<Rightarrow> 'd \<Rightarrow> 'w \<Rightarrow> (error + 'd) \<times> 'w" where
  "bag_fold binop [] acc w = (Inr acc, w)"
| "bag_fold binop (task # tasks) acc w =
     (case task w of
        (Inl e, w') \<Rightarrow> (Inl e, w')
      | (Inr r, w') \<Rightarrow> bag_fold binop tasks (binop acc r) w')"

text \<open>
  \<open>zip(cycle(hostnames), items)\<close>: \<open>itertools.cycle\<close> yields the elements of
  \<open>hostnames\<close>, saving them, and replays the saved elements for ever (it yields nothing
  when there are none); \<open>zip\<close> stops with the items. \<open>rest\<close> is what is left of the
  current pass.
\<close>

fun zip_cycle :: "'a list \<Rightarrow> 'a list \<Rightarrow> 'b list \<Rightarrow> ('a \<times> 'b) list" where
  "zip_cycle saved rest [] = []"
| "zip_cycle saved (h # rest) (x # xs) = (h, x) # zip_cycle saved rest xs"
| "zip_cycle saved [] (x # xs) =
     (case saved of
        [] \<Rightarrow> []
      | h # rest \<Rightarrow> (h, x) # zip_cycle saved rest xs)"

text \<open>
  The loop that builds \<open>hostname_actions_map\<close> / \<open>hostname_asserts_map\<close>: a dict, kept as
  an association list in insertion order (the order in which \<open>bag.from_sequence\<close> reads
  its keys).
\<close>

fun hostname_items_map ::
  "(string \<times> 'a) list \<Rightarrow> (string \<times> 'a list) list \<Rightarrow> (string \<times> 'a list) list" where
  "hostname_items_map [] m = m"
| "hostname_items_map ((hostname, item) # rest) m =
     hostname_items_map rest
       (if map_of m hostname = None then m @ [(hostname, [item])]
        else map (\<lambda>(k, v). if k = hostname then (k, v @ [item]) else (k, v)) m)"

definition state_actions :: "snapshot \<Rightarrow> string \<Rightarrow> actions_data" where
  \<comment> \<open>\<open>state[test_name].get("actions", {})\<close>\<close>
  "state_actions st test_name =
     (case st test_name of
        None \<Rightarrow> Map.empty
      | Some e \<Rightarrow> (case entry_actions e of None \<Rightarrow> Map.empty | Some d \<Rightarrow> d))"

definition state_asserts :: "snapshot \<Rightarrow> string \<Rightarrow> statuses" where
  \<comment> \<open>\<open>state[test_name].get("asserts", {})\<close>\<close>
  "state_asserts st test_name =
     (case st test_name of
        None \<Rightarrow> Map.empty
      | Some e \<Rightarrow> (case entry_asserts e of None \<Rightarrow> Map.empty | Some d \<Rightarrow> d))"

text \<open>
  The four strategies take the state as a snapshot: \<open>run_test\<close> calls them once the
  entry of the test exists, so reading \<open>state[test_name]\<close> creates nothing there.
\<close>

definition run_actions_parallel ::
  "'w engine \<Rightarrow> action list \<Rightarrow> snapshot \<Rightarrow> string \<Rightarrow> string list \<Rightarrow> rat \<Rightarrow> 'w
     \<Rightarrow> (error + actions_data) \<times> 'w" where
  "run_actions_parallel eng actions st test_name hostnames seconds_between_actions =
     bag_fold (combine_action_data eng)
       (map (\<lambda>hostname. run_actions eng actions st hostname seconds_between_actions) hostnames)
       (state_actions st test_name)"

definition run_actions_series ::
  "'w engine \<Rightarrow> action list \<Rightarrow> snapshot \<Rightarrow> string \<Rightarrow> string list \<Rightarrow> rat \<Rightarrow> 'w
     \<Rightarrow> (error + actions_data) \<times> 'w" where
  "run_actions_series eng actions st test_name hostnames seconds_between_actions =
     (let hostname_actions_map = hostname_items_map (zip_cycle hostnames hostnames actions) []
      in bag_fold (combine_action_data eng)
           (map (\<lambda>(h_name, shard). run_actions eng shard st h_name seconds_between_actions)
              hostname_actions_map)
           (state_actions st test_name))"

definition run_asserts_parallel ::
  "'w engine \<Rightarrow> asrt list \<Rightarrow> snapshot \<Rightarrow> string \<Rightarrow> string list \<Rightarrow> rat \<Rightarrow> 'w
     \<Rightarrow> (error + statuses) \<times> 'w" where
  "run_asserts_parallel eng asserts st test_name hostnames seconds_between_asserts =
     bag_fold (combine_data_by_key eng)
       (map (\<lambda>hostname.
               run_asserts eng (get_remaining_asserts asserts (state_asserts st test_name))
                 st hostname seconds_between_asserts)
          hostnames)
       (state_asserts st test_name)"

definition run_asserts_series ::
  "'w engine \<Rightarrow> asrt list \<Rightarrow> snapshot \<Rightarrow> string \<Rightarrow> string list \<Rightarrow> rat \<Rightarrow> 'w
     \<Rightarrow> (error + statuses) \<times> 'w" where
  "run_asserts_series eng asserts st test_name hostnames seconds_between_asserts =
     (let hostname_asserts_map =
            hostname_items_map
              (zip_cycle hostnames hostnames
                 (get_remaining_asserts asserts (state_asserts st test_name))) []
      in bag_fold (combine_data_by_key eng)
           (map (\<lambda>(h_name, shard). run_asserts eng shard st h_name seconds_between_asserts)
              hostname_asserts_map)
           (state_asserts st test_name))"

text \<open>
  Observing dispatch: \<open>traced eng\<close> is \<open>eng\<close> with a trace beside its world, to which
  every call of \<open>run_actions\<close> and \<open>run_asserts\<close> appends the hostname and the items it
  was given.
\<close>

datatype call = ActionsCall string "action list" | AssertsCall string "asrt list"

definition traced :: "'w engine \<Rightarrow> ('w \<times> call list) engine" where
  "traced eng =
     \<lparr>run_actions = (\<lambda>actions st hostname seconds (w, tr).
          case run_actions eng actions st hostname seconds w of
            (r, w') \<Rightarrow> (r, (w', tr @ [ActionsCall hostname actions]))),
      run_asserts = (\<lambda>asserts st hostname seconds (w, tr).
          case run_asserts eng asserts st hostname seconds w of
            (r, w') \<Rightarrow> (r, (w', tr @ [AssertsCall hostname asserts]))),
      combine_action_data = combine_action_data eng,
      combine_data_by_key = combine_data_by_key eng,
      create_item_name = create_item_name eng,
      new_signal = (\<lambda>(w, tr). case new_signal eng w of (n, w') \<Rightarrow> (n, (w', tr))),
      set_signal = (\<lambda>signal b (w, tr). (set_signal eng signal b w, tr)),
      keep_going = (\<lambda>signal (w, tr). case keep_going eng signal w of (b, w') \<Rightarrow> (b, (w', tr))),
      sleep = (\<lambda>seconds (w, tr). (sleep eng seconds w, tr)),
      clock = (\<lambda>(w, tr). clock eng w)\<rparr>"

fun actions_sent_to :: "string \<Rightarrow> call list \<Rightarrow> action list" where
  "actions_sent_to h [] = []"
| "actions_sent_to h (ActionsCall h' items # tr) =
     (if h' = h then items @ actions_sent_to h tr else actions_sent_to h tr)"
| "actions_sent_to h (AssertsCall h' items # tr) = actions_sent_to h tr"

fun asserts_sent :: "call list \<Rightarrow> asrt list" where
  "asserts_sent [] = []"
| "asserts_sent (ActionsCall h items # tr) = asserts_sent tr"
| "asserts_sent (AssertsCall h items # tr) = items @ asserts_sent tr"

fun dispatches :: "call list \<Rightarrow> nat" where
  "dispatches [] = 0"
| "dispatches (ActionsCall h items # tr) = length items + dispatches tr"
| "dispatches (AssertsCall h items # tr) = length items + dispatches tr"

text \<open>The items paired with hostname \<open>h\<close> in a list of (hostname, item) pairs, in order.\<close>

definition items_for :: "string \<Rightarrow> (string \<times> 'a) list \<Rightarrow> 'a list" where
  "items_for h zs = map snd (filter (\<lambda>z. fst z = h) zs)"

section \<open>testing.py: name verification\<close>

text \<open>The decimal digits of a number, for the f-string \<open>f"Assert{i}"\<close>.\<close>

fun string_of_nat :: "nat \<Rightarrow> string" where
  "string_of_nat n =
     (if n < 10 then [''0123456789'' ! n]
      else string_of_nat (n div 10) @ [''0123456789'' ! (n mod 10)])"

declare string_of_nat.simps [simp del]

text \<open>
  The inner loop of \<open>verify_action_names\<close> over \<open>enumerate(action.get("asserts", []))\<close>:
  it writes \<open>asrt["name"]\<close> into every inner assert and collects the names. The dicts
  are mutated in place; the model returns them updated.
\<close>

fun name_action_asserts :: "nat \<Rightarrow> asrt list \<Rightarrow> string list \<times> asrt list" where
  "name_action_asserts i [] = ([], [])"
| "name_action_asserts i (a # asserts) =
     (let assert_name = (case asrt_name a of None \<Rightarrow> ''Assert'' @ string_of_nat i | Some n \<Rightarrow> n);
          (action_assert_names, asserts') = name_action_asserts (Suc i) asserts
      in (assert_name # action_assert_names, a\<lparr>asrt_name := Some assert_name\<rparr> # asserts'))"

text \<open>
  \<open>verify_action_names\<close>, from the point where \<open>action_names\<close> has been collected for
  the actions before: the result is the \<open>AssertionError\<close> raised, if any, and the
  actions as the loop has left them (those before the failing one carry their names).
  \<open>len(set(xs)) == len(xs)\<close> is \<open>card (set xs) = length xs\<close>.
\<close>

fun verify_action_names_from ::
  "'w engine \<Rightarrow> string \<Rightarrow> string list \<Rightarrow> action list \<Rightarrow> error option \<times> action list" where
  "verify_action_names_from eng test_name action_names [] =
     (if card (set action_names) = length action_names then None
      else Some (AssertionError ''Action names if specified must be unique''), [])"
| "verify_action_names_from eng test_name action_names (act # actions) =
     (case action_type act of
        None \<Rightarrow>
          (Some (AssertionError
             (''Action in test '' @ quoted test_name @ '' is missing property '' @ quoted ''type'')),
           act # actions)
      | Some t \<Rightarrow>
          (let name = (case action_name act of
                         None \<Rightarrow> create_item_name eng t action_names
                       | Some n \<Rightarrow> n);
               (action_assert_names, asserts') = name_action_asserts 0 (inner_asserts act);
               act' = act\<lparr>action_name := Some name,
                          action_asserts := map_option (\<lambda>xs. asserts') (action_asserts act)\<rparr>
           in if card (set action_assert_names) \<noteq> length action_assert_names
              then (Some (AssertionError
                      (''Assert names for action '' @ name @ '' if specified must be unique'')),
                    act' # actions)
              else (case verify_action_names_from eng test_name (action_names @ [name]) actions of
                      (err, actions') \<Rightarrow> (err, act' # actions'))))"

definition verify_action_names ::
  "'w engine \<Rightarrow> action list \<Rightarrow> test_config \<Rightarrow> error option \<times> action list" where
  "verify_action_names eng actions test_config =
     verify_action_names_from eng (config_name test_config) [] actions"

fun verify_assert_names_from ::
  "'w engine \<Rightarrow> string \<Rightarrow> string list \<Rightarrow> asrt list \<Rightarrow> error option \<times> asrt list" where
  "verify_assert_names_from eng test_name assert_names [] =
     (if card (set assert_names) = length assert_names then None
      else Some (AssertionError ''Assert names if specified must be unique''), [])"
| "verify_assert_names_from eng test_name assert_names (a # asserts) =
     (case asrt_type a of
        None \<Rightarrow>
          (Some (AssertionError
             (''Assert in test '' @ quoted test_name @ '' is missing property '' @ quoted ''type'')),
           a # asserts)
      | Some t \<Rightarrow>
          (let name = (case asrt_name a of
                         None \<Rightarrow> create_item_name eng t assert_names
                       | Some n \<Rightarrow> n);
               a' = a\<lparr>asrt_name := Some name\<rparr>
           in (case verify_assert_names_from eng test_name (assert_names @ [name]) asserts of
                 (err, asserts') \<Rightarrow> (err, a' # asserts'))))"

definition verify_assert_names ::
  "'w engine \<Rightarrow> asrt list \<Rightarrow> test_config \<Rightarrow> error option \<times> asrt list" where
  "verify_assert_names eng asserts test_config =
     verify_assert_names_from eng (config_name test_config) [] asserts"

section \<open>testing.py: the cycle engine\<close>

definition empty_entry :: entry where
  "empty_entry = \<lparr>entry_actions = None, entry_asserts = None, entry_summary = None\<rparr>"

text \<open>
  \<open>state[key]\<close> on \<open>defaultdict(dict, incoming_state)\<close>: a missing key is given a
  fresh empty dict, stored in the state. The result is the address of the entry.
\<close>

definition getitem :: "state \<Rightarrow> heap \<Rightarrow> string \<Rightarrow> nat \<times> state \<times> heap" where
  "getitem st h key =
     (case st key of
        Some a \<Rightarrow> (a, st, h)
      | None \<Rightarrow> (length h, st(key \<mapsto> length h), h @ [empty_entry]))"

text \<open>\<open>Variable(timeout_signal_name).get()\<close>, read only when a signal name is given.\<close>

definition poll :: "'w engine \<Rightarrow> string option \<Rightarrow> 'w \<Rightarrow> bool \<times> 'w" where
  "poll eng timeout_signal_name w =
     (case timeout_signal_name of None \<Rightarrow> (True, w) | Some n \<Rightarrow> keep_going eng n w)"

definition get_or :: "'a option \<Rightarrow> 'a \<Rightarrow> 'a" where
  \<comment> \<open>\<open>d.get(key, default)\<close>\<close>
  "get_or v d = (case v of None \<Rightarrow> d | Some x \<Rightarrow> x)"

text \<open>
  The two dispatch steps of a cycle. Each gives the error raised, if any, and the state,
  store and world it leaves.
\<close>

definition dispatch_actions ::
  "'w engine \<Rightarrow> test_config \<Rightarrow> action list \<Rightarrow> string list \<Rightarrow> state \<Rightarrow> heap \<Rightarrow> 'w
     \<Rightarrow> error option \<times> state \<times> heap \<times> 'w" where
  "dispatch_actions eng test_config actions hostnames st h w =
     (let action_distribution_strategy =
            get_or (config_actionDistributionStrategy test_config) ''parallel''
      in if actions = [] then (None, st, h, w)
         else if action_distribution_strategy \<notin> {''parallel'', ''series''} then
           (Some (AssertionError
              (''actionDistributionStrategy must be '' @ quoted ''parallel'' @ '' or ''
                 @ quoted ''series'' @ '', got '' @ quoted action_distribution_strategy)),
            st, h, w)
         else
           (let run_actions_func =
                  (if action_distribution_strategy = ''series'' then run_actions_series
                   else run_actions_parallel);
                (a, st1, h1) = getitem st h (config_name test_config)
            in case run_actions_func eng actions (deref h1 st1) (config_name test_config) hostnames
                      (get_or (config_secondsBetweenActions test_config) 0) w of
                 (Inl e, w') \<Rightarrow> (Some e, st1, h1, w')
               | (Inr actions_data, w') \<Rightarrow>
                   (None, st1, h1[a := (h1 ! a)\<lparr>entry_actions := Some actions_data\<rparr>], w')))"

definition dispatch_asserts ::
  "'w engine \<Rightarrow> test_config \<Rightarrow> asrt list \<Rightarrow> string list \<Rightarrow> state \<Rightarrow> heap \<Rightarrow> 'w
     \<Rightarrow> error option \<times> state \<times> heap \<times> 'w" where
  "dispatch_asserts eng test_config asserts hostnames st h w =
     (let assert_distribution_strategy =
            get_or (config_assertDistributionStrategy test_config) ''series''
      in if asserts = [] then (None, st, h, w)
         else if assert_distribution_strategy \<notin> {''parallel'', ''series''} then
           (Some (AssertionError
              (''assertDistributionStrategy must be '' @ quoted ''parallel'' @ '' or ''
                 @ quoted ''series'' @ '', got '' @ quoted assert_distribution_strategy)),
            st, h, w)
         else
           (let run_asserts_func =
                  (if assert_distribution_strategy = ''parallel'' then run_asserts_parallel
                   else run_asserts_series);
                (a, st1, h1) = getitem st h (config_name test_config)
            in case run_asserts_func eng asserts (deref h1 st1) (config_name test_config) hostnames
                      (get_or (config_secondsBetweenAsserts test_config) 0) w of
                 (Inl e, w') \<Rightarrow> (Some e, st1, h1, w')
               | (Inr sts, w') \<Rightarrow>
                   (None, st1, h1[a := (h1 ! a)\<lparr>entry_asserts := Some sts\<rparr>], w')))"

text \<open>
  The loop condition: \<open>continue_running\<close> on the actions and asserts data of the test's
  entry; reading \<open>state[test_config["name"]]\<close> creates the entry when it is missing.
\<close>

definition loop_condition ::
  "test_config \<Rightarrow> action list \<Rightarrow> asrt list \<Rightarrow> int \<Rightarrow> state \<Rightarrow> heap
     \<Rightarrow> (error + bool) \<times> state \<times> heap" where
  "loop_condition test_config actions asserts remaining_cycles st h =
     (case getitem st h (config_name test_config) of
        (a, st1, h1) \<Rightarrow>
          (continue_running actions asserts remaining_cycles
             (state_actions (deref h1 st1) (config_name test_config))
             (state_asserts (deref h1 st1) (config_name test_config)),
           st1, h1))"

text \<open>
  The \<open>while\<close> loop of \<open>run_test\<close>. It need not end (an unlimited budget with an assert
  that never passes and no timeout signal): the result is \<open>None\<close> then. Otherwise it is
  the error raised, if any, the completed cycles, and the state, store and world.
\<close>

partial_function (option) run_cycles ::
  "'w engine \<Rightarrow> test_config \<Rightarrow> action list \<Rightarrow> asrt list \<Rightarrow> string list \<Rightarrow> string option
     \<Rightarrow> int \<Rightarrow> int \<Rightarrow> state \<Rightarrow> heap \<Rightarrow> 'w
     \<Rightarrow> (error option \<times> int \<times> state \<times> heap \<times> 'w) option" where
  "run_cycles eng test_config actions asserts hostnames timeout_signal_name
       remaining_cycles completed st h w =
     (case loop_condition test_config actions asserts remaining_cycles st h of
        (Inl e, st1, h1) \<Rightarrow> Some (Some e, completed, st1, h1, w)
      | (Inr continue, st1, h1) \<Rightarrow>
          if \<not> continue then Some (None, completed, st1, h1, w)
          else
            (case poll eng timeout_signal_name w of
               (keep, w1) \<Rightarrow>
                 if \<not> keep then Some (None, completed, st1, h1, w1)
                 else
                   (case dispatch_actions eng test_config actions hostnames st1 h1 w1 of
                      (Some e, st2, h2, w2) \<Rightarrow> Some (Some e, completed, st2, h2, w2)
                    | (None, st2, h2, w2) \<Rightarrow>
                        (case dispatch_asserts eng test_config asserts hostnames st2 h2 w2 of
                           (Some e, st3, h3, w3) \<Rightarrow> Some (Some e, completed, st3, h3, w3)
                         | (None, st3, h3, w3) \<Rightarrow>
                             (case loop_condition test_config actions asserts
                                     (remaining_cycles - 1) st3 h3 of
                                (Inl e, st4, h4) \<Rightarrow>
                                  Some (Some e, completed + 1, st4, h4, w3)
                              | (Inr again, st4, h4) \<Rightarrow>
                                  run_cycles eng test_config actions asserts hostnames
                                    timeout_signal_name (remaining_cycles - 1)
                                    (completed + 1) st4 h4
                                    (if again
                                     then sleep eng
                                            (get_or (config_secondsBetweenCycles test_config) 1) w3
                                     else w3))))))"

text \<open>\<open>[asrt["name"] for asrt in remaining_asserts]\<close>.\<close>

fun assert_names :: "asrt list \<Rightarrow> error + string list" where
  "assert_names [] = Inr []"
| "assert_names (a # asserts) =
     (case asrt_name a of
        None \<Rightarrow> Inl (KeyError ''name'')
      | Some n \<Rightarrow> (case assert_names asserts of Inl e \<Rightarrow> Inl e | Inr ns \<Rightarrow> Inr (n # ns)))"

text \<open>
  \<open>run_test\<close>. Its arguments are objects of the caller: the entries of
  \<open>incoming_state\<close> live in the store, and \<open>test_config\<close>, whose action and assert
  dicts the verification writes names into, is returned as the call leaves it. The
  result is \<open>None\<close> when the loop does not end, and otherwise the returned state or the
  error raised, with the test configuration, the store and the world after the call.
\<close>

definition run_test ::
  "'w engine \<Rightarrow> test_config \<Rightarrow> state \<Rightarrow> string list \<Rightarrow> string option \<Rightarrow> heap \<Rightarrow> 'w
     \<Rightarrow> ((error + state) \<times> test_config \<times> heap \<times> 'w) option" where
  "run_test eng test_config incoming_state hostnames timeout_signal_name h w =
     (let actions = get_or (config_actions test_config) [];
          asserts = get_or (config_asserts test_config) [];
          default_cycles = get_default_cycles actions asserts;
          remaining_cycles = get_or (config_cycles test_config) default_cycles;
          st = incoming_state
      in if hostnames = [] then
           Some (Inl (AssertionError ''Must have at least one host to run tests''),
                 test_config, h, w)
         else
           (case verify_action_names eng actions test_config of
              (err1, actions1) \<Rightarrow>
                (let tc1 = test_config
                       \<lparr>config_actions := map_option (\<lambda>xs. actions1) (config_actions test_config)\<rparr>
                 in case err1 of
                      Some e \<Rightarrow> Some (Inl e, tc1, h, w)
                    | None \<Rightarrow>
                        (case verify_assert_names eng asserts tc1 of
                           (err2, asserts1) \<Rightarrow>
                             (let tc2 = tc1
                                    \<lparr>config_asserts :=
                                       map_option (\<lambda>xs. asserts1) (config_asserts tc1)\<rparr>;
                                  start_time = clock eng w
                              in case err2 of
                                   Some e \<Rightarrow> Some (Inl e, tc2, h, w)
                                 | None \<Rightarrow>
                                     (case run_cycles eng tc2 actions1 asserts1 hostnames
                                             timeout_signal_name remaining_cycles 0 st h w of
                                        None \<Rightarrow> None
                                      | Some (Some e, completed, st1, h1, w1) \<Rightarrow>
                                          Some (Inl e, tc2, h1, w1)
                                      | Some (None, completed, st1, h1, w1) \<Rightarrow>
                                          (case getitem st1 h1 (config_name tc2) of
                                             (a, st2, h2) \<Rightarrow>
                                               (case assert_names
                                                       (get_remaining_asserts asserts1
                                                          (state_asserts (deref h2 st2)
                                                             (config_name tc2))) of
                                                  Inl e \<Rightarrow> Some (Inl e, tc2, h2, w1)
                                                | Inr names \<Rightarrow>
                                                    Some (Inr st2, tc2,
                                                      h2[a := (h2 ! a)\<lparr>entry_summary := Some
                                                         \<lparr>summary_description = config_description tc2,
                                                          completed_cycles = completed,
                                                          remaining_asserts = names,
                                                          summary_error = None,
                                                          duration = clock eng w1 - start_time,
                                                          summary_filename = config_filename tc2\<rparr>\<rparr>],
                                                      w1)))))))))"

section \<open>Observing names, entries and summaries\<close>

text \<open>
  \<open>keeps_name before after\<close>: a name that was given is kept, and one that was absent has
  been written. \<open>asrt_named\<close> and \<open>action_named\<close> relate an assert and an action to
  what the verification leaves of them: named, and otherwise as they were.
\<close>

definition keeps_name :: "string option \<Rightarrow> string option \<Rightarrow> bool" where
  "keeps_name before after = (case before of None \<Rightarrow> after \<noteq> None | Some n \<Rightarrow> after = Some n)"

definition asrt_named :: "asrt \<Rightarrow> asrt \<Rightarrow> bool" where
  "asrt_named a a' =
     (keeps_name (asrt_name a) (asrt_name a') \<and> asrt_type a' = asrt_type a
      \<and> asrt_params a' = asrt_params a)"

definition action_named :: "action \<Rightarrow> action \<Rightarrow> bool" where
  "action_named act act' =
     (keeps_name (action_name act) (action_name act')
      \<and> action_type act' = action_type act \<and> action_params act' = action_params act
      \<and> list_all2 asrt_named (inner_asserts act) (inner_asserts act'))"

text \<open>
  \<open>valid_entry\<close>: the address a state holds for a test, if any, is an address of the
  store. \<open>summary_of\<close> reads the summary of a test through a state;
  \<open>summary_with\<close> is the \<open>TestSummary\<close> that \<open>run_test\<close> builds.
\<close>

definition valid_entry :: "state \<Rightarrow> heap \<Rightarrow> string \<Rightarrow> bool" where
  "valid_entry st h n = (case st n of None \<Rightarrow> True | Some a \<Rightarrow> a < length h)"

definition summary_of :: "heap \<Rightarrow> state \<Rightarrow> string \<Rightarrow> test_summary option" where
  "summary_of h st n = (case st n of None \<Rightarrow> None | Some a \<Rightarrow> entry_summary (h ! a))"

definition summary_with :: "test_config \<Rightarrow> int \<Rightarrow> string list \<Rightarrow> int \<Rightarrow> test_summary" where
  "summary_with tc completed names seconds =
     \<lparr>summary_description = config_description tc, completed_cycles = completed,
      remaining_asserts = names, summary_error = None, duration = seconds,
      summary_filename = config_filename tc\<rparr>"

section \<open>testing.py: the timeout supervisor\<close>

text \<open>
  \<open>run_test_with_timeout\<close>. Without a duration, or with a negative one, it calls
  \<open>run_test\<close> on its own arguments. Otherwise it makes a fresh flag, sets it, submits
  \<open>run_test\<close> with the flag's name and a deadline task, waits for the first of the two,
  clears the flag and returns (or raises) what the \<open>run_test\<close> task does. The two tasks
  run concurrently on the task runtime; in the model the deadline task is part of the
  world behind \<open>keep_going\<close>. \<open>client.submit\<close> hands the task copies of its arguments:
  the task works on a copy of the test document, so the caller's document is left as it
  was, and on copies of the entries (the store is doubled, the copy of the entry at
  address \<open>a\<close> standing at \<open>a + length h\<close>), and the state it returns refers to the
  copies.
\<close>

definition run_test_with_timeout ::
  "'w engine \<Rightarrow> test_config \<Rightarrow> state \<Rightarrow> string list \<Rightarrow> int option \<Rightarrow> heap \<Rightarrow> 'w
     \<Rightarrow> ((error + state) \<times> test_config \<times> heap \<times> 'w) option" where
  "run_test_with_timeout eng test_config incoming_state hostnames timeout h w =
     (case timeout of
        None \<Rightarrow> run_test eng test_config incoming_state hostnames None h w
      | Some d \<Rightarrow>
          if d < 0 then run_test eng test_config incoming_state hostnames None h w
          else
            (case new_signal eng w of
               (timeout_signal_name, w1) \<Rightarrow>
                 (case run_test eng test_config
                         (\<lambda>n. map_option (\<lambda>a. a + length h) (incoming_state n))
                         hostnames (Some timeout_signal_name) (h @ h)
                         (set_signal eng timeout_signal_name True w1) of
                    None \<Rightarrow> None
                  | Some (res, tc', h', w2) \<Rightarrow>
                      Some (res, test_config, h',
                            set_signal eng timeout_signal_name False w2))))"

section \<open>runners.py: images, environment and the health gate\<close>

definition runner_to_image :: "string option \<Rightarrow> string option" where
  "runner_to_image runner_name =
     (if runner_name = Some ''rest-runner'' then Some ''cicadatesting/cicada-2-rest-runner''
      else if runner_name = Some ''sql-runner'' then Some ''cicadatesting/cicada-2-sql-runner''
      else if runner_name = Some ''kafka-runner'' then Some ''cicadatesting/cicada-2-kafka-runner''
      else if runner_name = Some ''s3-runner'' then Some ''cicadatesting/cicada-2-s3-runner''
      else if runner_name = Some ''grpc-runner'' then Some ''cicadatesting/cicada-2-grpc-runner''
      else None)"

text \<open>\<open>str.upper\<close> on ASCII letters, and a dict kept as an association list.\<close>

definition upper :: "string \<Rightarrow> string" where
  "upper s =
     map (\<lambda>c. case map_of (zip ''abcdefghijklmnopqrstuvwxyz'' ''ABCDEFGHIJKLMNOPQRSTUVWXYZ'') c of
                 None \<Rightarrow> c
               | Some u \<Rightarrow> u) s"

fun dict_set :: "('k \<times> 'v) list \<Rightarrow> 'k \<Rightarrow> 'v \<Rightarrow> ('k \<times> 'v) list" where
  "dict_set [] k v = [(k, v)]"
| "dict_set ((k', v') # d) k v = (if k' = k then (k, v) # d else (k', v') # dict_set d k v)"

definition config_to_runner_env :: "(string \<times> string) list \<Rightarrow> (string \<times> string) list" where
  "config_to_runner_env config =
     foldl (\<lambda>env (key, val). dict_set env (''RUNNER_'' @ upper key) val) [] config"

text \<open>
  The constants of cicada2.engine.config, which is not among the sources, are the fields
  of \<open>settings\<close>.
\<close>

record settings =
  CONTAINER_NETWORK :: string
  CREATE_NETWORK :: bool
  HEALTHCHECK_INITIAL_WAIT :: int
  HEALTHCHECK_MAX_RETRIES :: int
  POD_NAMESPACE :: string
  POD_SERVICE_ACCOUNT :: string

text \<open>
  The infrastructure the provisioners act on: the time slept so far, the network as it
  answers at a given time, the values \<open>uuid4\<close> returns, the Docker daemon (whether its
  API answers, its networks, the images it can start, the running containers) and the
  Kubernetes cluster (whether its API answers, its pods and services).
\<close>

record container =
  container_name :: string
  container_image :: string
  container_environment :: "(string \<times> string) list"
  container_network :: string
  container_labels :: "string list"
  container_volumes :: "(string \<times> string \<times> string) list"

record infra =
  elapsed :: int
  net :: "int \<Rightarrow> transport"
  uuids :: "nat \<Rightarrow> string"
  issued :: nat
  docker_up :: bool
  networks :: "string list"
  images :: "string list"
  running :: "container list"
  kube_up :: bool
  pods :: "string list"
  services :: "string list"

text \<open>
  \<open>container_is_healthy\<close>, from the point where \<open>retries\<close> checks have failed and the
  next wait is \<open>wait_time\<close>: sleep, check, and on failure double the wait.
\<close>

function container_is_healthy_from :: "string \<Rightarrow> int \<Rightarrow> int \<Rightarrow> int \<Rightarrow> infra \<Rightarrow> bool \<times> infra" where
  "container_is_healthy_from hostname max_retries retries wait_time p =
     (if retries < max_retries then
        (if \<not> runner_healthcheck (net p (elapsed p + wait_time)) hostname
         then container_is_healthy_from hostname max_retries (retries + 1) (wait_time * 2)
                (p\<lparr>elapsed := elapsed p + wait_time\<rparr>)
         else (True, p\<lparr>elapsed := elapsed p + wait_time\<rparr>))
      else (False, p))"
  by pat_completeness auto
termination
  by (relation "measure (\<lambda>(hostname, max_retries, retries, wait_time, p). nat (max_retries - retries))")
     auto

declare container_is_healthy_from.simps [simp del]

definition container_is_healthy :: "settings \<Rightarrow> string \<Rightarrow> infra \<Rightarrow> bool \<times> infra" where
  "container_is_healthy cfg hostname p =
     container_is_healthy_from hostname (HEALTHCHECK_MAX_RETRIES cfg) 0
       (HEALTHCHECK_INITIAL_WAIT cfg) p"

section \<open>runners.py: the Docker backend\<close>

text \<open>
  The calls of the Docker client. \<open>networks.get\<close> raises \<open>NotFound\<close> (an \<open>APIError\<close>)
  for a network that does not exist; every call raises \<open>APIError\<close> when the daemon does
  not answer, and \<open>containers.run\<close> when the image cannot be started. A started
  container is running until it is stopped.
\<close>

definition is_APIError :: "error \<Rightarrow> bool" where
  "is_APIError e = (case e of APIError m \<Rightarrow> True | NotFound m \<Rightarrow> True | _ \<Rightarrow> False)"

definition networks_get :: "string \<Rightarrow> infra \<Rightarrow> error option" where
  "networks_get network p =
     (if \<not> docker_up p then Some (APIError ''docker daemon is not answering'')
      else if network \<in> set (networks p) then None
      else Some (NotFound (''network '' @ network @ '' not found'')))"

definition networks_create :: "string \<Rightarrow> infra \<Rightarrow> error option \<times> infra" where
  "networks_create network p =
     (if \<not> docker_up p then (Some (APIError ''docker daemon is not answering''), p)
      else (None, p\<lparr>networks := networks p @ [network]\<rparr>))"

definition containers_run :: "container \<Rightarrow> infra \<Rightarrow> error option \<times> infra" where
  "containers_run c p =
     (if \<not> docker_up p then (Some (APIError ''docker daemon is not answering''), p)
      else if container_image c \<notin> set (images p) then
        (Some (APIError (''pull access denied for '' @ container_image c)), p)
      else (None, p\<lparr>running := running p @ [c]\<rparr>))"

definition container_stop :: "container \<Rightarrow> infra \<Rightarrow> error option \<times> infra" where
  "container_stop c p =
     (if \<not> docker_up p then (Some (APIError ''docker daemon is not answering''), p)
      else (None, p\<lparr>running := filter (\<lambda>c'. container_name c' \<noteq> container_name c) (running p)\<rparr>))"

text \<open>\<open>str.split(sep)\<close>, and \<open>str(uuid.uuid4())\<close>.\<close>

fun str_split :: "char \<Rightarrow> string \<Rightarrow> string list" where
  "str_split sep [] = [[]]"
| "str_split sep (c # cs) =
     (if c = sep then [] # str_split sep cs
      else (case str_split sep cs of
              [] \<Rightarrow> [[c]]
            | x # xs \<Rightarrow> (c # x) # xs))"

definition uuid4 :: "infra \<Rightarrow> string \<times> infra" where
  "uuid4 p = (uuids p (issued p), p\<lparr>issued := Suc (issued p)\<rparr>)"

definition runner_type_of :: "string \<Rightarrow> string" where
  \<comment> \<open>\<open>image.split('/')[-1].split(':')[0]\<close>\<close>
  "runner_type_of img = hd (str_split CHR '':'' (last (str_split CHR ''/'' img)))"

text \<open>The two nested \<open>try\<close> blocks around the network of \<open>create_docker_container\<close>.\<close>

definition configure_network :: "string \<Rightarrow> bool \<Rightarrow> infra \<Rightarrow> error option \<times> infra" where
  "configure_network network create_network p =
     (case networks_get network p of
        None \<Rightarrow> (None, p)
      | Some (NotFound m) \<Rightarrow>
          if create_network then
            (case networks_create network p of
               (None, p1) \<Rightarrow> (None, p1)
             | (Some e, p1) \<Rightarrow>
                 (Some (if is_APIError e
                        then RuntimeError (''Unable to configure docker network: '' @ str e)
                        else e), p1))
          else (Some (ValidationError (''Docker network '' @ network @ '' not configured'')), p)
      | Some e \<Rightarrow>
          (Some (if is_APIError e
                 then RuntimeError (''Unable to configure docker network: '' @ str e)
                 else e), p))"

definition create_docker_container ::
  "settings \<Rightarrow> string \<Rightarrow> (string \<times> string) list \<Rightarrow> string \<Rightarrow> volume list option \<Rightarrow> infra
     \<Rightarrow> (error + container) \<times> infra" where
  "create_docker_container cfg img env_map run_id volumes p =
     (case configure_network (CONTAINER_NETWORK cfg) (CREATE_NETWORK cfg) p of
        (Some e, p1) \<Rightarrow> (Inl e, p1)
      | (None, p1) \<Rightarrow>
          (case uuid4 p1 of
             (u, p2) \<Rightarrow>
               (let runner_type = runner_type_of img;
                    container_id = runner_type @ ''-'' @ take 8 u;
                    volume_map =
                      foldl (\<lambda>m vol. dict_set m (source vol) (destination vol, ''rw''))
                        [] (get_or volumes []);
                    c = \<lparr>container_name = container_id, container_image = img,
                         container_environment = env_map,
                         container_network = CONTAINER_NETWORK cfg,
                         container_labels = [''cicada-2-runner'', run_id],
                         container_volumes = volume_map\<rparr>
                in case containers_run c p2 of
                     (Some e, p3) \<Rightarrow>
                       (Inl (if is_APIError e
                             then RuntimeError (''Unable to create container: '' @ str e)
                             else e), p3)
                   | (None, p3) \<Rightarrow>
                       (case container_is_healthy cfg (container_id @ '':50051'') p3 of
                          (True, p4) \<Rightarrow> (Inr c, p4)
                        | (False, p4) \<Rightarrow>
                            (Inl (RuntimeError ''Unable to successfully contact container''),
                             p4)))))"

definition stop_docker_container :: "container \<Rightarrow> infra \<Rightarrow> error option \<times> infra" where
  "stop_docker_container c p = container_stop c p"

definition get_docker_hostname :: "container \<Rightarrow> string" where
  "get_docker_hostname c = container_name c @ '':50051''"

section \<open>runners.py: stopping a Kubernetes pod\<close>

text \<open>
  Deleting a pod or a service raises \<open>ApiException\<close> when the API does not answer or the
  object does not exist.
\<close>

definition delete_namespaced_pod :: "string \<Rightarrow> infra \<Rightarrow> error option \<times> infra" where
  "delete_namespaced_pod name p =
     (if \<not> kube_up p then (Some (ApiException ''(503) Service Unavailable''), p)
      else if name \<notin> set (pods p) then (Some (ApiException ''(404) Not Found''), p)
      else (None, p\<lparr>pods := filter (\<lambda>n. n \<noteq> name) (pods p)\<rparr>))"

definition delete_namespaced_service :: "string \<Rightarrow> infra \<Rightarrow> error option \<times> infra" where
  "delete_namespaced_service name p =
     (if \<not> kube_up p then (Some (ApiException ''(503) Service Unavailable''), p)
      else if name \<notin> set (services p) then (Some (ApiException ''(404) Not Found''), p)
      else (None, p\<lparr>services := filter (\<lambda>n. n \<noteq> name) (services p)\<rparr>))"

definition stop_kube_pod :: "string \<Rightarrow> infra \<Rightarrow> error option \<times> infra" where
  "stop_kube_pod container_id p =
     (case delete_namespaced_pod container_id p of
        (Some err, p1) \<Rightarrow>
          (Some (RuntimeError (''Unable to stop pod '' @ container_id @ '': '' @ str err)), p1)
      | (None, p1) \<Rightarrow>
          (case delete_namespaced_service container_id p1 of
             (Some err, p2) \<Rightarrow>
               (Some (RuntimeError (''Unable to stop pod '' @ container_id @ '': '' @ str err)),
                p2)
           | (None, p2) \<Rightarrow> (None, p2)))"

definition get_pod_hostname :: "string \<Rightarrow> string" where
  "get_pod_hostname container_id = container_id @ '':50051''"

section \<open>runners.py: the closure\<close>

text \<open>
  \<open>runners.run_test\<close> is given the three functions of a provisioner: they are the
  fields of \<open>backend\<close>, over the provisioner's world \<open>'p\<close> and its runner handles
  \<open>'r\<close>. The engine has no access to them: its world \<open>'w\<close> is a separate one.
  \<open>render_section\<close> of cicada2.engine.parsing is not among the sources; it is a field
  of \<open>collaborators\<close>, once for a test document and once for a \<open>config\<close> block, and
  may raise. \<open>ValidationError\<close> of cicada2.shared.errors is not among the sources
  either: whether it is one of the four exception classes the closure catches is the
  field \<open>catches_ValidationError\<close>.
\<close>

record ('p, 'r) backend =
  create_runner_fn ::
    "string \<Rightarrow> (string \<times> string) list \<Rightarrow> string \<Rightarrow> volume list option \<Rightarrow> 'p \<Rightarrow> (error + 'r) \<times> 'p"
  remove_runner_fn :: "'r \<Rightarrow> 'p \<Rightarrow> error option \<times> 'p"
  get_runner_hostname_fn :: "'r \<Rightarrow> string"

record collaborators =
  render_section :: "test_config \<Rightarrow> snapshot \<Rightarrow> error + test_config"
  render_config :: "(string \<times> string) list \<Rightarrow> snapshot \<Rightarrow> error + (string \<times> string) list"
  catches_ValidationError :: bool

definition caught :: "collaborators \<Rightarrow> error \<Rightarrow> bool" where
  \<comment> \<open>\<open>except (AssertionError, ValueError, TypeError, RuntimeError)\<close>\<close>
  "caught col e =
     (case e of
        AssertionError m \<Rightarrow> True
      | ValueError m \<Rightarrow> True
      | TypeError m \<Rightarrow> True
      | RuntimeError m \<Rightarrow> True
      | ValidationError m \<Rightarrow> catches_ValidationError col
      | _ \<Rightarrow> False)"

definition resolve_image :: "test_config \<Rightarrow> string option" where
  \<comment> \<open>\<open>runner_to_image(rendered.get("runner")) or rendered.get("image")\<close>\<close>
  "resolve_image rendered =
     (case runner_to_image (config_runner rendered) of
        Some i \<Rightarrow> Some i
      | None \<Rightarrow> config_image rendered)"

text \<open>The loop \<open>for _ in range(runnerCount)\<close> that creates the runners.\<close>

fun provision ::
  "('p, 'r) backend \<Rightarrow> string \<Rightarrow> (string \<times> string) list \<Rightarrow> string \<Rightarrow> volume list option
     \<Rightarrow> nat \<Rightarrow> 'r list \<Rightarrow> 'p \<Rightarrow> error option \<times> 'r list \<times> 'p" where
  "provision b img env run_id volumes 0 runners p = (None, runners, p)"
| "provision b img env run_id volumes (Suc n) runners p =
     (case create_runner_fn b img env run_id volumes p of
        (Inl e, p1) \<Rightarrow> (Some e, runners, p1)
      | (Inr runner, p1) \<Rightarrow> provision b img env run_id volumes n (runners @ [runner]) p1)"

text \<open>The loop \<open>for runner in runners: remove_runner_fn(runner)\<close>.\<close>

fun remove_all :: "('p, 'r) backend \<Rightarrow> 'r list \<Rightarrow> 'p \<Rightarrow> error option \<times> 'p" where
  "remove_all b [] p = (None, p)"
| "remove_all b (runner # runners) p =
     (case remove_runner_fn b runner p of
        (Some e, p1) \<Rightarrow> (Some e, p1)
      | (None, p1) \<Rightarrow> remove_all b runners p1)"

definition error_entry :: "string option \<Rightarrow> string option \<Rightarrow> error \<Rightarrow> entry" where
  \<comment> \<open>\<open>{"summary": TestSummary(description, error=str(err), completed_cycles=0, ...)}\<close>\<close>
  "error_entry descr filename err =
     \<lparr>entry_actions = None, entry_asserts = None,
      entry_summary = Some
        \<lparr>summary_description = descr, completed_cycles = 0, remaining_asserts = [],
         summary_error = Some (str err), duration = 0, summary_filename = filename\<rparr>\<rparr>"

text \<open>
  The outer \<open>except\<close> of the closure and the \<open>return {**state, **new_state}\<close> after it:
  an exception of a caught class becomes an error summary under the test's name, any
  other one leaves the closure.
\<close>

definition outer_except ::
  "collaborators \<Rightarrow> test_config \<Rightarrow> state \<Rightarrow> heap \<Rightarrow> 'w \<Rightarrow> 'p \<Rightarrow> error
     \<Rightarrow> ((error + state) \<times> heap \<times> 'w \<times> 'p) option" where
  "outer_except col test_config st h w p err =
     (if caught col err then
        Some (Inr (st ++ [config_name test_config \<mapsto> length h]),
              h @ [error_entry (config_description test_config) (config_filename test_config) err],
              w, p)
      else Some (Inl err, h, w, p))"

text \<open>
  The closure built by \<open>runners.run_test\<close>. The result is \<open>None\<close> when the test does
  not end, and otherwise the returned state or the exception that leaves the closure,
  with the store and the two worlds after the call.
\<close>

definition closure ::
  "'w engine \<Rightarrow> ('p, 'r) backend \<Rightarrow> collaborators \<Rightarrow> test_config \<Rightarrow> string
     \<Rightarrow> state \<Rightarrow> heap \<Rightarrow> 'w \<Rightarrow> 'p \<Rightarrow> ((error + state) \<times> heap \<times> 'w \<times> 'p) option" where
  "closure eng b col test_config run_id st h w p =
     (case render_section col test_config (deref h st) of
        Inl e \<Rightarrow> outer_except col test_config st h w p e
      | Inr rendered \<Rightarrow>
          (case resolve_image rendered of
             None \<Rightarrow>
               outer_except col test_config st h w p
                 (AssertionError
                    (''Must specify a valid '' @ quoted ''runner'' @ '' or '' @ quoted ''image''))
           | Some img \<Rightarrow>
               (case render_config col (get_or (config_config rendered) []) (deref h st) of
                  Inl e \<Rightarrow> outer_except col test_config st h w p e
                | Inr config \<Rightarrow>
                    (case provision b img (config_to_runner_env config) run_id
                            (config_volumes rendered)
                            (nat (get_or (config_runnerCount rendered) 1)) [] p of
                       (Some e, runners, p1) \<Rightarrow> outer_except col test_config st h w p1 e
                     | (None, runners, p1) \<Rightarrow>
                         (case run_test_with_timeout eng rendered st
                                 (map (get_runner_hostname_fn b) runners)
                                 (Some (get_or (config_timeout rendered) 15)) h w of
                            None \<Rightarrow> None
                          | Some (Inr new_state, tc', h1, w1) \<Rightarrow>
                              (case remove_all b runners p1 of
                                 (Some e, p2) \<Rightarrow> outer_except col test_config st h1 w1 p2 e
                               | (None, p2) \<Rightarrow> Some (Inr (st ++ new_state), h1, w1, p2))
                          | Some (Inl err, tc', h1, w1) \<Rightarrow>
                              if \<not> caught col err then
                                outer_except col test_config st h1 w1 p1 err
                              else
                                (case remove_all b runners p1 of
                                   (Some e, p2) \<Rightarrow> outer_except col test_config st h1 w1 p2 e
                                 | (None, p2) \<Rightarrow>
                                     (case remove_all b runners p2 of
                                        (Some e, p3) \<Rightarrow>
                                          outer_except col test_config st
                                            (h1 @ [error_entry (config_description rendered)
                                                     (config_filename rendered) err])
                                            w1 p3 e
                                      | (None, p3) \<Rightarrow>
                                          Some (Inr (st ++ [config_name test_config \<mapsto> length h1]),
                                                h1 @ [error_entry (config_description rendered)
                                                        (config_filename rendered) err],
                                                w1, p3))))))))"

text \<open>
  Observing the life of runners: \<open>logged b\<close> is the backend \<open>b\<close> with a log beside
  its world, to which every runner is added as \<open>Created\<close> when \<open>create_runner_fn\<close>
  returns it and as \<open>Removed\<close> when \<open>remove_runner_fn\<close> has returned for it.
\<close>

datatype 'r event = Created 'r | Removed 'r

definition logged :: "('p, 'r) backend \<Rightarrow> ('p \<times> 'r event list, 'r) backend" where
  "logged b =
     \<lparr>create_runner_fn = (\<lambda>img env run_id volumes (p, evs).
          case create_runner_fn b img env run_id volumes p of
            (Inl e, p1) \<Rightarrow> (Inl e, (p1, evs))
          | (Inr runner, p1) \<Rightarrow> (Inr runner, (p1, evs @ [Created runner]))),
      remove_runner_fn = (\<lambda>runner (p, evs).
          case remove_runner_fn b runner p of
            (Some e, p1) \<Rightarrow> (Some e, (p1, evs))
          | (None, p1) \<Rightarrow> (None, (p1, evs @ [Removed runner]))),
      get_runner_hostname_fn = get_runner_hostname_fn b\<rparr>"

section \<open>Concrete scenarios\<close>

text \<open>A runner that is down: every call of its stub raises \<open>UNAVAILABLE\<close>.\<close>

definition down_error :: rpc_error where
  "down_error = \<lparr>code = ''UNAVAILABLE'', details = Some ''failed to connect to all addresses''\<rparr>"

definition down_transport :: transport where
  "down_transport =
     \<lparr>channel = (\<lambda>address.
          \<lparr>Action = (\<lambda>r. Inl down_error),
           Assert = (\<lambda>r. Inl down_error),
           Healthcheck = Inl down_error\<rparr>),
      dumps = (\<lambda>j. ''{}''),
      loads = (\<lambda>s. Some (JObj []))\<rparr>"

definition post_action :: action where
  "post_action =
     \<lparr>action_type = Some ''POST'', action_name = Some ''a1'',
      action_params = Some (JObj []), action_asserts = None\<rparr>"

definition status_assert :: asrt where
  "status_assert =
     \<lparr>asrt_type = Some ''StatusCode'', asrt_name = Some ''s1'', asrt_params = Some (JObj [])\<rparr>"

text \<open>
  An engine for the scenarios. Its world counts the calls of \<open>run_asserts\<close>: every
  action answers \<open>{"status": 200}\<close>, and an assert fails on the first call and passes
  from the second on.
\<close>

definition demo_engine :: "nat engine" where
  "demo_engine =
     \<lparr>run_actions = (\<lambda>actions st hostname seconds w.
          (Inr (\<lambda>n. if Some n \<in> action_name ` set actions
                     then Some \<lparr>data_outputs = Some (JObj [(''status'', JNum 200)]),
                                data_asserts = None\<rparr>
                     else None), w)),
      run_asserts = (\<lambda>asserts st hostname seconds w.
          (Inr (\<lambda>n. if Some n \<in> asrt_name ` set asserts
                     then Some \<lparr>passed = (0 < w), actual = Some ''200'',
                                expected = Some ''200'', description = Some ''status''\<rparr>
                     else None), Suc w)),
      combine_action_data = (\<lambda>a b. a ++ b),
      combine_data_by_key = (\<lambda>a b. a ++ b),
      create_item_name = (\<lambda>t names. t @ string_of_nat (length names)),
      new_signal = (\<lambda>w. (''keep-going-1'', w)),
      set_signal = (\<lambda>signal b w. w),
      keep_going = (\<lambda>signal w. (True, w)),
      sleep = (\<lambda>seconds w. w),
      clock = (\<lambda>w. 0)\<rparr>"

text \<open>An engine whose actions fail: every call of \<open>run_actions\<close> raises.\<close>

definition failing_engine :: "nat engine" where
  "failing_engine = demo_engine
     \<lparr>run_actions := (\<lambda>actions st hostname seconds w.
        (Inl (RuntimeError ''Connection reset by peer''), w))\<rparr>"

definition named_action :: "string \<Rightarrow> action" where
  "named_action n =
     \<lparr>action_type = Some ''POST'', action_name = Some n,
      action_params = Some (JObj []), action_asserts = None\<rparr>"

definition named_assert :: "string \<Rightarrow> asrt" where
  "named_assert n =
     \<lparr>asrt_type = Some ''StatusCode'', asrt_name = Some n, asrt_params = Some (JObj [])\<rparr>"

definition passed_status :: assert_status where
  "passed_status =
     \<lparr>passed = True, actual = Some ''200'', expected = Some ''200'', description = Some ''status''\<rparr>"

text \<open>A state in which test \<open>t\<close> has recorded assert \<open>s1\<close> as passed.\<close>

definition s1_passed :: snapshot where
  "s1_passed =
     [''t'' \<mapsto> \<lparr>entry_actions = None, entry_asserts = Some [''s1'' \<mapsto> passed_status],
               entry_summary = None\<rparr>]"

text \<open>A test document with no actions and no asserts, and variations of it.\<close>

definition base_config :: test_config where
  "base_config =
     \<lparr>config_name = ''t'', config_description = Some ''demo'',
      config_filename = Some ''t.cicada.yaml'',
      config_runner = Some ''rest-runner'', config_image = None, config_config = None,
      config_runnerCount = None, config_volumes = None, config_cycles = None,
      config_secondsBetweenActions = None, config_secondsBetweenAsserts = None,
      config_secondsBetweenCycles = None, config_timeout = None,
      config_actionDistributionStrategy = None, config_assertDistributionStrategy = None,
      config_actions = None, config_asserts = None\<rparr>"

definition old_summary :: test_summary where
  "old_summary =
     \<lparr>summary_description = Some ''earlier run'', completed_cycles = 7, remaining_asserts = [],
      summary_error = None, duration = 3, summary_filename = Some ''t.cicada.yaml''\<rparr>"

definition old_entry :: entry where
  "old_entry =
     \<lparr>entry_actions = Some Map.empty, entry_asserts = None, entry_summary = Some old_summary\<rparr>"

definition nameless_config :: test_config where
  "nameless_config = base_config
     \<lparr>config_cycles := Some 1,
      config_actions := Some
        [\<lparr>action_type = Some ''POST'', action_name = None, action_params = Some (JObj []),
          action_asserts = Some
            [\<lparr>asrt_type = Some ''StatusCode'', asrt_name = None, asrt_params = Some (JObj [])\<rparr>]\<rparr>],
      config_asserts := Some
        [\<lparr>asrt_type = Some ''StatusCode'', asrt_name = None, asrt_params = Some (JObj [])\<rparr>]\<rparr>"

text \<open>
  Infrastructure for the scenarios: a Docker daemon that has the network and the
  rest-runner image, and containers that answer their health check, or never do, or only
  the first one does.
\<close>

definition demo_settings :: settings where
  "demo_settings =
     \<lparr>CONTAINER_NETWORK = ''cicada-2'', CREATE_NETWORK = True,
      HEALTHCHECK_INITIAL_WAIT = 2, HEALTHCHECK_MAX_RETRIES = 5,
      POD_NAMESPACE = ''default'', POD_SERVICE_ACCOUNT = ''default''\<rparr>"

definition up_transport :: transport where
  "up_transport =
     \<lparr>channel = (\<lambda>address.
          \<lparr>Action = (\<lambda>r. Inr \<lparr>outputs = ''{}''\<rparr>),
           Assert = (\<lambda>r. Inr \<lparr>reply_passed = True, reply_actual = ''200'',
                              reply_expected = ''200'', reply_description = ''status''\<rparr>),
           Healthcheck = Inr \<lparr>ready = True\<rparr>\<rparr>),
      dumps = (\<lambda>j. ''{}''),
      loads = (\<lambda>s. Some (JObj []))\<rparr>"

definition first_up_transport :: transport where
  "first_up_transport =
     \<lparr>channel = (\<lambda>address.
          if address = ''cicada-2-rest-runner-00000000:50051'' then channel up_transport address
          else channel down_transport address),
      dumps = (\<lambda>j. ''{}''),
      loads = (\<lambda>s. Some (JObj []))\<rparr>"

definition demo_infra :: infra where
  "demo_infra =
     \<lparr>elapsed = 0, net = (\<lambda>t. up_transport),
      uuids = (\<lambda>n. ''0000000'' @ string_of_nat n @ ''-1111-4111-8111-111111111111''),
      issued = 0, docker_up = True, networks = [''cicada-2''],
      images = [''cicadatesting/cicada-2-rest-runner''], running = [],
      kube_up = True, pods = [], services = []\<rparr>"

definition docker_backend :: "settings \<Rightarrow> (infra, container) backend" where
  "docker_backend cfg =
     \<lparr>create_runner_fn = create_docker_container cfg,
      remove_runner_fn = stop_docker_container,
      get_runner_hostname_fn = get_docker_hostname\<rparr>"

text \<open>
  A Kubernetes provisioner whose pod and service are created at once (it stands for a
  \<open>create_kube_pod\<close> that succeeded) and are stopped by \<open>stop_kube_pod\<close>.
\<close>

definition kube_backend :: "(infra, string) backend" where
  "kube_backend =
     \<lparr>create_runner_fn = (\<lambda>img env run_id volumes p.
          (Inr ''rest-runner-1'',
           p\<lparr>pods := pods p @ [''rest-runner-1''], services := services p @ [''rest-runner-1'']\<rparr>)),
      remove_runner_fn = stop_kube_pod,
      get_runner_hostname_fn = get_pod_hostname\<rparr>"

definition plain_rendering :: collaborators where
  "plain_rendering =
     \<lparr>render_section = (\<lambda>test_config st. Inr test_config),
      render_config = (\<lambda>config st. Inr config),
      catches_ValidationError = False\<rparr>"

definition one_action_config :: test_config where
  "one_action_config = base_config\<lparr>config_actions := Some [post_action]\<rparr>"

text \<open>The container the Docker backend starts first in the scenarios.\<close>

definition demo_container :: container where
  "demo_container =
     \<lparr>container_name = ''cicada-2-rest-runner-00000000'',
      container_image = ''cicadatesting/cicada-2-rest-runner'',
      container_environment = [], container_network = ''cicada-2'',
      container_labels = [''cicada-2-runner'', ''run-1''],
      container_volumes = []\<rparr>"

section \<open>Properties of the messaging shim\<close>

text \<open>
  C4. Whenever the stub raises an RPC error, \<open>send_action\<close> returns the empty mapping,
  \<open>send_assert\<close> returns a status with \<open>passed = False\<close>, no actual, no expected and the
  error's details as description, and \<open>runner_healthcheck\<close> returns \<open>False\<close>; each of
  the three returns normally. The stub is called once the request is built, that is when
  the item has its \<open>type\<close> and \<open>params\<close>.
\<close>

theorem rpc_error_to_sentinel:
  "(action_type act = Some t \<and> action_params act = Some p \<and>
    Action (channel tr addr) \<lparr>request_type = t, request_params = dumps tr p\<rparr> = Inl err
      \<longrightarrow> send_action tr addr act = Inr (JObj []))
   \<and> (asrt_type a = Some t' \<and> asrt_params a = Some p' \<and>
    Assert (channel tr addr) \<lparr>request_type = t', request_params = dumps tr p'\<rparr> = Inl err'
      \<longrightarrow> send_assert tr addr a =
            Inr \<lparr>passed = False, actual = None, expected = None, description = details err'\<rparr>)
   \<and> (Healthcheck (channel tr addr) = Inl err'' \<longrightarrow> runner_healthcheck tr addr = False)"
  by (simp add: send_action_def send_assert_def runner_healthcheck_def)

theorem rpc_error_to_sentinel_witness:
  "send_action down_transport ''rest-runner-1:50051'' post_action = Inr (JObj [])
   \<and> send_assert down_transport ''rest-runner-1:50051'' status_assert =
        Inr \<lparr>passed = False, actual = None, expected = None,
             description = Some ''failed to connect to all addresses''\<rparr>
   \<and> runner_healthcheck down_transport ''rest-runner-1:50051'' = False"
  using rpc_error_to_sentinel
    [of post_action "''POST''" "JObj []" down_transport "''rest-runner-1:50051''" down_error
        status_assert "''StatusCode''" "JObj []" down_error down_error]
  by (simp add: down_transport_def down_error_def post_action_def status_assert_def)

section \<open>Properties of the loop predicate\<close>

lemma remaining_nonempty_iff:
  "get_remaining_asserts asserts sts \<noteq> [] \<longleftrightarrow> (\<exists>a \<in> set asserts. \<not> satisfied sts a)"
  by (simp add: get_remaining_asserts_def filter_empty_conv)

lemma any_action_asserts_remain_named:
  "\<forall>act \<in> set actions. action_name act \<noteq> None \<Longrightarrow>
   any_action_asserts_remain actions actions_data =
     Inr (\<exists>act \<in> set actions. \<exists>a \<in> set (inner_asserts act).
            \<not> satisfied (statuses_of_action actions_data act) a)"
proof (induction actions)
  case Nil
  then show ?case by simp
next
  case (Cons act actions)
  from Cons.prems obtain n where n: "action_name act = Some n" by auto
  have rest: "any_action_asserts_remain actions actions_data =
     Inr (\<exists>act \<in> set actions. \<exists>a \<in> set (inner_asserts act).
            \<not> satisfied (statuses_of_action actions_data act) a)"
    using Cons.IH Cons.prems by simp
  show ?case
    by (simp add: n rest remaining_nonempty_iff statuses_of_action_def)
qed

text \<open>
  C5. \<open>continue_running\<close> returns true exactly when either there are no asserts and no
  inner asserts and \<open>remaining_cycles \<noteq> 0\<close>, or there is some assert or inner assert,
  \<open>remaining_cycles \<noteq> 0\<close>, and some top-level assert or some inner assert of some
  action is not satisfied. The predicate reads \<open>action["name"]\<close>, so the actions carry
  their names (as they do after \<open>verify_action_names\<close>).
\<close>

theorem continue_running_iff:
  assumes "\<forall>act \<in> set actions. action_name act \<noteq> None"
  shows "continue_running actions asserts remaining_cycles actions_data assert_statuses =
     Inr ((asserts = [] \<and> (\<forall>act \<in> set actions. inner_asserts act = []) \<and> remaining_cycles \<noteq> 0)
        \<or> ((asserts \<noteq> [] \<or> (\<exists>act \<in> set actions. inner_asserts act \<noteq> []))
            \<and> remaining_cycles \<noteq> 0
            \<and> ((\<exists>a \<in> set asserts. \<not> satisfied assert_statuses a)
               \<or> (\<exists>act \<in> set actions. \<exists>a \<in> set (inner_asserts act).
                     \<not> satisfied (statuses_of_action actions_data act) a))))"
  using any_action_asserts_remain_named [OF assms, of actions_data]
  by (auto simp: continue_running_def actions_have_asserts_def action_has_asserts_def
      remaining_nonempty_iff)

theorem continue_running_iff_witness:
  "continue_running [post_action] [status_assert] (- 1) Map.empty Map.empty = Inr True
   \<and> continue_running [post_action] [status_assert] (- 1) Map.empty
        [''s1'' \<mapsto> \<lparr>passed = True, actual = None, expected = None, description = None\<rparr>]
      = Inr False"
  using continue_running_iff [of "[post_action]" "[status_assert]" "- 1" Map.empty Map.empty]
    continue_running_iff [of "[post_action]" "[status_assert]" "- 1" Map.empty
      "[''s1'' \<mapsto> \<lparr>passed = True, actual = None, expected = None, description = None\<rparr>]"]
  by (simp add: post_action_def status_assert_def inner_asserts_def satisfied_def)

section \<open>Properties of the distribution strategies\<close>

lemma map_upt_Suc_shift: "map f [0..<Suc n] = f 0 # map (\<lambda>i. f (Suc i)) [0..<n]"
  by (simp add: map_upt_Suc del: upt_Suc)

lemma zip_cycle_round_robin:
  "saved \<noteq> [] \<Longrightarrow> j \<le> length saved \<Longrightarrow>
   zip_cycle saved (drop j saved) items =
     map (\<lambda>i. (saved ! ((j + i) mod length saved), items ! i)) [0..<length items]"
proof (induction items arbitrary: j)
  case Nil
  then show ?case by simp
next
  case (Cons x xs)
  let ?m = "length saved"
  show ?case
  proof (cases "j < ?m")
    case True
    then have d: "drop j saved = saved ! j # drop (Suc j) saved"
      by (simp add: Cons_nth_drop_Suc)
    have "zip_cycle saved (drop j saved) (x # xs) =
            (saved ! j, x) # zip_cycle saved (drop (Suc j) saved) xs"
      by (simp add: d)
    also have "zip_cycle saved (drop (Suc j) saved) xs =
            map (\<lambda>i. (saved ! ((Suc j + i) mod ?m), xs ! i)) [0..<length xs]"
      using Cons.IH [of "Suc j"] Cons.prems True by simp
    finally show ?thesis
      using True by (simp add: map_upt_Suc_shift del: upt_Suc)
  next
    case False
    with Cons.prems have j: "j = ?m" by simp
    from Cons.prems obtain h rest where s: "saved = h # rest" by (cases saved) auto
    have r: "rest = drop 1 saved" by (simp add: s)
    have "zip_cycle saved (drop j saved) (x # xs) = (h, x) # zip_cycle saved rest xs"
      by (simp add: j s)
    also have "zip_cycle saved rest xs =
            map (\<lambda>i. (saved ! ((1 + i) mod ?m), xs ! i)) [0..<length xs]"
      unfolding r using Cons.IH [of 1] Cons.prems by (simp add: s)
    finally have step: "zip_cycle saved (drop j saved) (x # xs) =
        (h, x) # map (\<lambda>i. (saved ! ((1 + i) mod ?m), xs ! i)) [0..<length xs]" .
    have h0: "saved ! 0 = h" by (simp add: s)
    have idx: "Suc (?m + i) mod ?m = Suc i mod ?m" for i
    proof -
      have "Suc (?m + i) mod ?m = (Suc i + ?m) mod ?m" by (simp add: add.commute)
      also have "\<dots> = Suc i mod ?m" by (rule mod_add_self2)
      finally show ?thesis .
    qed
    have "map (\<lambda>i. (saved ! ((j + i) mod ?m), (x # xs) ! i)) [0..<length (x # xs)] =
        (h, x) # map (\<lambda>i. (saved ! ((1 + i) mod ?m), xs ! i)) [0..<length xs]"
      unfolding j by (simp add: map_upt_Suc_shift idx h0 del: upt_Suc)
    then show ?thesis using step by simp
  qed
qed


lemma map_of_append_key:
  "map_of (map (\<lambda>(k, v). if k = h then (k, v @ [x]) else (k, v)) m) h' =
     (if h' = h then map_option (\<lambda>v. v @ [x]) (map_of m h) else map_of m h')"
  by (induction m) auto

lemma keys_append_key:
  "map fst (map (\<lambda>(k, v). if k = h then (k, v @ [x]) else (k, v)) m) = map fst m"
  by (induction m) auto

lemma hostname_items_map_keys_distinct:
  "distinct (map fst m) \<Longrightarrow> distinct (map fst (hostname_items_map zs m))"
proof (induction zs arbitrary: m)
  case Nil
  then show ?case by simp
next
  case (Cons z zs)
  obtain h x where z: "z = (h, x)" by (cases z)
  show ?case
  proof (cases "map_of m h")
    case None
    then have "h \<notin> set (map fst m)" by (simp add: map_of_eq_None_iff)
    with Cons.prems have "distinct (map fst (m @ [(h, [x])]))" by simp
    from Cons.IH [OF this] show ?thesis by (simp add: z None)
  next
    case (Some v)
    from Cons.prems have
      "distinct (map fst (map (\<lambda>(k, v). if k = h then (k, v @ [x]) else (k, v)) m))"
      by (simp only: keys_append_key)
    from Cons.IH [OF this] show ?thesis by (simp add: z Some)
  qed
qed

lemma map_of_snoc:
  "map_of (m @ [(k, v)]) h =
     (case map_of m h of None \<Rightarrow> if h = k then Some v else None | Some u \<Rightarrow> Some u)"
  by (induction m) auto

lemma items_for_Cons:
  "items_for h ((h', x) # zs) = (if h' = h then x # items_for h zs else items_for h zs)"
  by (simp add: items_for_def)

lemma items_for_Nil: "items_for h [] = []"
  by (simp add: items_for_def)

lemma hostname_items_map_lookup:
  "map_of (hostname_items_map zs m) h =
     (case map_of m h of
        None \<Rightarrow> if h \<in> fst ` set zs then Some (items_for h zs) else None
      | Some v \<Rightarrow> Some (v @ items_for h zs))"
proof (induction zs arbitrary: m)
  case Nil
  then show ?case by (simp add: items_for_Nil split: option.splits)
next
  case (Cons z zs)
  obtain h' x where z: "z = (h', x)" by (cases z)
  show ?case
  proof (cases "map_of m h'")
    case None
    have "map_of (hostname_items_map (z # zs) m) h =
            map_of (hostname_items_map zs (m @ [(h', [x])])) h"
      by (simp add: z None)
    also have "\<dots> = (case map_of (m @ [(h', [x])]) h of
        None \<Rightarrow> if h \<in> fst ` set zs then Some (items_for h zs) else None
      | Some v \<Rightarrow> Some (v @ items_for h zs))"
      by (rule Cons.IH)
    finally show ?thesis
      using None by (auto simp: z map_of_snoc items_for_Cons split: option.splits)
  next
    case (Some v)
    have "map_of (hostname_items_map (z # zs) m) h =
            map_of (hostname_items_map zs
              (map (\<lambda>(k, v). if k = h' then (k, v @ [x]) else (k, v)) m)) h"
      by (simp add: z Some)
    also have "\<dots> = (case map_of (map (\<lambda>(k, v). if k = h' then (k, v @ [x]) else (k, v)) m) h of
        None \<Rightarrow> if h \<in> fst ` set zs then Some (items_for h zs) else None
      | Some v \<Rightarrow> Some (v @ items_for h zs))"
      by (rule Cons.IH)
    finally show ?thesis
      using Some by (auto simp: z map_of_append_key items_for_Cons split: option.splits)
  qed
qed

lemma size_append_key:
  "distinct (map fst m) \<Longrightarrow> h \<in> fst ` set m \<Longrightarrow>
   sum_list (map (\<lambda>(k, v). length v) (map (\<lambda>(k, v). if k = h then (k, v @ [x]) else (k, v)) m))
     = Suc (sum_list (map (\<lambda>(k, v). length v) m))"
proof (induction m)
  case Nil
  then show ?case by simp
next
  case (Cons kv m)
  obtain k v where kv: "kv = (k, v)" by (cases kv)
  show ?case
  proof (cases "k = h")
    case True
    with Cons.prems have "h \<notin> fst ` set m" by (simp add: kv)
    then have "map (\<lambda>(k, v). if k = h then (k, v @ [x]) else (k, v)) m = m"
      by (induction m) auto
    then show ?thesis by (simp add: kv True)
  next
    case False
    with Cons.prems have "h \<in> fst ` set m" "distinct (map fst m)" by (auto simp: kv)
    from Cons.IH [OF this(2) this(1)] show ?thesis by (simp add: kv False)
  qed
qed

lemma hostname_items_map_size:
  "distinct (map fst m) \<Longrightarrow>
   sum_list (map (\<lambda>(k, v). length v) (hostname_items_map zs m)) =
     sum_list (map (\<lambda>(k, v). length v) m) + length zs"
proof (induction zs arbitrary: m)
  case Nil
  then show ?case by simp
next
  case (Cons z zs)
  obtain h x where z: "z = (h, x)" by (cases z)
  show ?case
  proof (cases "map_of m h")
    case None
    then have "h \<notin> set (map fst m)" by (simp add: map_of_eq_None_iff)
    with Cons.prems have "distinct (map fst (m @ [(h, [x])]))" by simp
    from Cons.IH [OF this] show ?thesis by (simp add: z None)
  next
    case (Some v)
    then have hin: "h \<in> fst ` set m" by (metis map_of_eq_None_iff option.distinct(1))
    from Cons.prems have
      "distinct (map fst (map (\<lambda>(k, v). if k = h then (k, v @ [x]) else (k, v)) m))"
      by (simp only: keys_append_key)
    from Cons.IH [OF this] size_append_key [OF Cons.prems hin, of x] show ?thesis
      by (simp add: z Some)
  qed
qed


lemma bag_fold_traced_actions:
  "bag_fold binop (map (\<lambda>(h, shard). run_actions (traced eng) shard st h d) shards) acc (w, tr)
     = (Inr r, (w', tr'))
   \<Longrightarrow> tr' = tr @ map (\<lambda>(h, shard). ActionsCall h shard) shards"
proof (induction shards arbitrary: acc w tr)
  case Nil
  then show ?case by simp
next
  case (Cons s shards)
  obtain h shard where s: "s = (h, shard)" by (cases s)
  obtain res w1 where run: "run_actions eng shard st h d w = (res, w1)"
    by (cases "run_actions eng shard st h d w")
  show ?case
  proof (cases res)
    case (Inl e)
    with Cons.prems show ?thesis by (simp add: s traced_def run)
  next
    case (Inr v)
    with Cons.prems have
      "bag_fold binop (map (\<lambda>(h, shard). run_actions (traced eng) shard st h d) shards)
         (binop acc v) (w1, tr @ [ActionsCall h shard]) = (Inr r, (w', tr'))"
      by (simp add: s traced_def run)
    from Cons.IH [OF this] show ?thesis by (simp add: s)
  qed
qed

lemma actions_sent_to_append:
  "actions_sent_to h (xs @ ys) = actions_sent_to h xs @ actions_sent_to h ys"
  by (induction h xs rule: actions_sent_to.induct) auto

lemma dispatches_shards:
  "dispatches (map (\<lambda>(h, shard). ActionsCall h shard) shards) =
     sum_list (map (\<lambda>(k, v). length v) shards)"
  by (induction shards) auto

lemma actions_sent_to_shards:
  "distinct (map fst shards) \<Longrightarrow>
   actions_sent_to h (map (\<lambda>(h, shard). ActionsCall h shard) shards) =
     (case map_of shards h of None \<Rightarrow> [] | Some v \<Rightarrow> v)"
proof (induction shards)
  case Nil
  then show ?case by simp
next
  case (Cons s shards)
  obtain k v where s: "s = (k, v)" by (cases s)
  show ?case
  proof (cases "k = h")
    case True
    with Cons.prems have "map_of shards h = None"
      by (simp add: s map_of_eq_None_iff)
    with Cons.IH Cons.prems show ?thesis by (simp add: s True)
  next
    case False
    with Cons.IH Cons.prems show ?thesis by (simp add: s)
  qed
qed

lemma series_shard:
  assumes "hostnames \<noteq> []"
  shows "(case map_of (hostname_items_map (zip_cycle hostnames hostnames items) []) h of
            None \<Rightarrow> [] | Some v \<Rightarrow> v) =
         map (\<lambda>i. items ! i)
           (filter (\<lambda>i. hostnames ! (i mod length hostnames) = h) [0..<length items])"
proof -
  let ?zs = "zip_cycle hostnames hostnames items"
  have zs: "?zs = map (\<lambda>i. (hostnames ! (i mod length hostnames), items ! i)) [0..<length items]"
    using zip_cycle_round_robin [OF assms, of 0 items] by simp
  have items: "items_for h ?zs =
      map (\<lambda>i. items ! i)
        (filter (\<lambda>i. hostnames ! (i mod length hostnames) = h) [0..<length items])"
    unfolding zs items_for_def by (simp add: filter_map comp_def)
  have "h \<notin> fst ` set ?zs \<Longrightarrow> items_for h ?zs = []"
    by (auto simp: items_for_def filter_empty_conv)
  then show ?thesis
    using items by (auto simp: hostname_items_map_lookup)
qed

lemma zip_cycle_length:
  "hostnames \<noteq> [] \<Longrightarrow> length (zip_cycle hostnames hostnames items) = length items"
  using zip_cycle_round_robin [of hostnames 0 items] by simp

text \<open>
  C7. With \<open>m\<close> hostnames and \<open>k\<close> actions, a run of the parallel strategy that
  returns has called \<open>run_actions\<close> once per hostname, in hostname order, each time with
  the entire action list in input order: \<open>m * k\<close> item dispatches. A run of the series
  strategy that returns, with at least one hostname, has sent to each hostname \<open>h\<close>
  exactly the actions at the indices \<open>i\<close> with \<open>hostnames ! (i mod m) = h\<close>, in input
  order: each item once, \<open>k\<close> dispatches.
\<close>

theorem strategies_dispatch:
  "(run_actions_parallel (traced eng) actions st test_name hostnames d (w, []) = (Inr r, (w', tr))
      \<longrightarrow> tr = map (\<lambda>h. ActionsCall h actions) hostnames
          \<and> dispatches tr = length hostnames * length actions)
   \<and> (hostnames \<noteq> [] \<and>
       run_actions_series (traced eng) actions st test_name hostnames d (w, []) = (Inr r', (w'', tr'))
      \<longrightarrow> (\<forall>h. actions_sent_to h tr' =
                 map (\<lambda>i. actions ! i)
                   (filter (\<lambda>i. hostnames ! (i mod length hostnames) = h) [0..<length actions]))
          \<and> dispatches tr' = length actions)"
proof (intro conjI impI)
  assume run: "run_actions_parallel (traced eng) actions st test_name hostnames d (w, []) =
    (Inr r, (w', tr))"
  have tasks: "map (\<lambda>hostname. run_actions (traced eng) actions st hostname d) hostnames =
      map (\<lambda>(h, shard). run_actions (traced eng) shard st h d) (map (\<lambda>h. (h, actions)) hostnames)"
    by (simp add: comp_def)
  from run have "tr = [] @ map (\<lambda>(h, shard). ActionsCall h shard) (map (\<lambda>h. (h, actions)) hostnames)"
    unfolding run_actions_parallel_def tasks
    by (simp only: traced_def engine.simps) (rule bag_fold_traced_actions [unfolded traced_def engine.simps])
  then show tr: "tr = map (\<lambda>h. ActionsCall h actions) hostnames" by (simp add: comp_def)
  show "dispatches tr = length hostnames * length actions"
    unfolding tr by (induction hostnames) auto
next
  assume a: "hostnames \<noteq> [] \<and>
    run_actions_series (traced eng) actions st test_name hostnames d (w, []) = (Inr r', (w'', tr'))"
  let ?shards = "hostname_items_map (zip_cycle hostnames hostnames actions) []"
  from a have tr': "tr' = map (\<lambda>(h, shard). ActionsCall h shard) ?shards"
    unfolding run_actions_series_def Let_def
    using bag_fold_traced_actions [of "combine_action_data (traced eng)" eng st d ?shards
        "state_actions st test_name" w "[]" r' w'' tr']
    by simp
  have dist: "distinct (map fst ?shards)"
    by (rule hostname_items_map_keys_distinct) simp
  show "\<forall>h. actions_sent_to h tr' =
                 map (\<lambda>i. actions ! i)
                   (filter (\<lambda>i. hostnames ! (i mod length hostnames) = h) [0..<length actions])"
    unfolding tr' using a by (simp add: actions_sent_to_shards [OF dist] series_shard)
  show "dispatches tr' = length actions"
    unfolding tr' using a
    by (simp add: dispatches_shards hostname_items_map_size zip_cycle_length)
qed

lemma asserts_sent_append:
  "asserts_sent (xs @ ys) = asserts_sent xs @ asserts_sent ys"
  by (induction xs rule: asserts_sent.induct) auto

lemma bag_fold_traced_asserts:
  "bag_fold binop (map (\<lambda>(h, shard). run_asserts (traced eng) shard st h d) shards) acc (w, tr)
     = (res, (w', tr'))
   \<Longrightarrow> set (asserts_sent tr') \<subseteq> set (asserts_sent tr) \<union> (\<Union>s \<in> set shards. set (snd s))"
proof (induction shards arbitrary: acc w tr)
  case Nil
  then show ?case by auto
next
  case (Cons s shards)
  obtain h shard where s: "s = (h, shard)" by (cases s)
  obtain r1 w1 where run: "run_asserts eng shard st h d w = (r1, w1)"
    by (cases "run_asserts eng shard st h d w")
  show ?case
  proof (cases r1)
    case (Inl e)
    with Cons.prems have "tr' = tr @ [AssertsCall h shard]"
      by (simp add: s traced_def run)
    then show ?thesis by (auto simp: asserts_sent_append s)
  next
    case (Inr v)
    with Cons.prems have
      "bag_fold binop (map (\<lambda>(h, shard). run_asserts (traced eng) shard st h d) shards)
         (binop acc v) (w1, tr @ [AssertsCall h shard]) = (res, (w', tr'))"
      by (simp add: s traced_def run)
    from Cons.IH [OF this] show ?thesis by (auto simp: asserts_sent_append s)
  qed
qed

lemma zip_cycle_items: "snd ` set (zip_cycle saved rest items) \<subseteq> set items"
  by (induction saved rest items rule: zip_cycle.induct) (auto split: list.splits)

lemma hostname_items_map_items:
  "(\<Union>s \<in> set (hostname_items_map zs m). set (snd s)) \<subseteq>
     (\<Union>s \<in> set m. set (snd s)) \<union> snd ` set zs"
proof (induction zs arbitrary: m)
  case Nil
  then show ?case by simp
next
  case (Cons z zs)
  obtain h x where z: "z = (h, x)" by (cases z)
  have upd: "(\<Union>s \<in> set (map (\<lambda>(k, v). if k = h then (k, v @ [x]) else (k, v)) m). set (snd s))
      \<subseteq> (\<Union>s \<in> set m. set (snd s)) \<union> {x}"
    by (auto split: if_splits)
  show ?case
  proof (cases "map_of m h")
    case None
    from Cons.IH [of "m @ [(h, [x])]"] show ?thesis by (auto simp: z None)
  next
    case (Some v)
    from Cons.IH [of "map (\<lambda>(k, v). if k = h then (k, v @ [x]) else (k, v)) m"] upd
    show ?thesis by (simp add: z Some) blast
  qed
qed

text \<open>
  C8. In both assert strategies every assert handed to \<open>run_asserts\<close> on any hostname
  is one of the given asserts that \<open>get_remaining_asserts\<close> kept: an assert whose status
  recorded in the state has \<open>passed = True\<close> is sent to no hostname. This holds for
  every outcome of the run, also when a shard raises.
\<close>

theorem satisfied_asserts_not_dispatched:
  "(run_asserts_parallel (traced eng) asserts st test_name hostnames d (w, []) = (res, (w', tr))
      \<longrightarrow> (\<forall>a \<in> set (asserts_sent tr).
             a \<in> set asserts \<and> \<not> satisfied (state_asserts st test_name) a))
   \<and> (run_asserts_series (traced eng) asserts st test_name hostnames d (w, []) = (res', (w'', tr'))
      \<longrightarrow> (\<forall>a \<in> set (asserts_sent tr').
             a \<in> set asserts \<and> \<not> satisfied (state_asserts st test_name) a))"
proof (intro conjI impI)
  let ?remaining = "get_remaining_asserts asserts (state_asserts st test_name)"
  have rem: "set ?remaining = {a \<in> set asserts. \<not> satisfied (state_asserts st test_name) a}"
    by (simp add: get_remaining_asserts_def)
  {
    assume run: "run_asserts_parallel (traced eng) asserts st test_name hostnames d (w, []) =
      (res, (w', tr))"
    have tasks: "map (\<lambda>hostname. run_asserts (traced eng) ?remaining st hostname d) hostnames =
        map (\<lambda>(h, shard). run_asserts (traced eng) shard st h d)
          (map (\<lambda>h. (h, ?remaining)) hostnames)"
      by (simp add: comp_def)
    from run have "bag_fold (combine_data_by_key (traced eng))
        (map (\<lambda>(h, shard). run_asserts (traced eng) shard st h d)
          (map (\<lambda>h. (h, ?remaining)) hostnames))
        (state_asserts st test_name) (w, []) = (res, (w', tr))"
      unfolding run_asserts_parallel_def tasks .
    from bag_fold_traced_asserts [OF this]
    have "set (asserts_sent tr) \<subseteq> set ?remaining" by (auto split: if_splits)
    then show "\<forall>a \<in> set (asserts_sent tr).
             a \<in> set asserts \<and> \<not> satisfied (state_asserts st test_name) a"
      using rem by auto
  }
  {
    assume run: "run_asserts_series (traced eng) asserts st test_name hostnames d (w, []) =
      (res', (w'', tr'))"
    let ?shards = "hostname_items_map (zip_cycle hostnames hostnames ?remaining) []"
    from run have "bag_fold (combine_data_by_key (traced eng))
        (map (\<lambda>(h, shard). run_asserts (traced eng) shard st h d) ?shards)
        (state_asserts st test_name) (w, []) = (res', (w'', tr'))"
      unfolding run_asserts_series_def Let_def .
    from bag_fold_traced_asserts [OF this]
    have "set (asserts_sent tr') \<subseteq> (\<Union>s \<in> set ?shards. set (snd s))" by simp
    also have "\<dots> \<subseteq> snd ` set (zip_cycle hostnames hostnames ?remaining)"
      using hostname_items_map_items [of "zip_cycle hostnames hostnames ?remaining" "[]"] by simp
    also have "\<dots> \<subseteq> set ?remaining" by (rule zip_cycle_items)
    finally show "\<forall>a \<in> set (asserts_sent tr').
             a \<in> set asserts \<and> \<not> satisfied (state_asserts st test_name) a"
      using rem by auto
  }
qed

lemmas scenario_defs = demo_engine_def named_action_def named_assert_def traced_def
  run_actions_series_def run_actions_parallel_def run_asserts_series_def run_asserts_parallel_def
  state_actions_def state_asserts_def get_remaining_asserts_def satisfied_def
  s1_passed_def passed_status_def

theorem strategies_dispatch_witness:
  "(case run_actions_parallel (traced demo_engine)
           [named_action ''a1'', named_action ''a2'', named_action ''a3'']
           Map.empty ''t'' [''h1'', ''h2''] 0 (0, []) of
      (Inr r, (w', tr)) \<Rightarrow> dispatches tr = 6
    | (Inl e, (w', tr)) \<Rightarrow> False)
   \<and> (case run_actions_series (traced demo_engine)
           [named_action ''a1'', named_action ''a2'', named_action ''a3'']
           Map.empty ''t'' [''h1'', ''h2''] 0 (0, []) of
      (Inr r, (w', tr)) \<Rightarrow>
         actions_sent_to ''h1'' tr = [named_action ''a1'', named_action ''a3'']
         \<and> actions_sent_to ''h2'' tr = [named_action ''a2'']
         \<and> dispatches tr = 3
    | (Inl e, (w', tr)) \<Rightarrow> False)"
proof -
  let ?acts = "[named_action ''a1'', named_action ''a2'', named_action ''a3'']"
  let ?hs = "[''h1'', ''h2'']"
  obtain r w' tr where par:
    "run_actions_parallel (traced demo_engine) ?acts Map.empty ''t'' ?hs 0 (0, []) = (Inr r, (w', tr))"
    by (simp add: scenario_defs)
  obtain r' w'' tr' where ser:
    "run_actions_series (traced demo_engine) ?acts Map.empty ''t'' ?hs 0 (0, []) = (Inr r', (w'', tr'))"
    by (simp add: scenario_defs)
  have up: "[0..<3] = [0, 1, 2]" by (simp add: upt_rec)
  from strategies_dispatch [of demo_engine ?acts Map.empty "''t''" ?hs 0 0 r w' tr r' w'' tr'] par ser
  show ?thesis by (simp add: up)
qed

theorem satisfied_asserts_not_dispatched_witness:
  "(case run_asserts_parallel (traced demo_engine) [named_assert ''s1'', named_assert ''s2'']
           s1_passed ''t'' [''h1'', ''h2''] 0 (0, []) of
      (res, (w', tr)) \<Rightarrow> asserts_sent tr = [named_assert ''s2'', named_assert ''s2''])
   \<and> (case run_asserts_series (traced demo_engine) [named_assert ''s1'', named_assert ''s2'']
           s1_passed ''t'' [''h1'', ''h2''] 0 (0, []) of
      (res, (w', tr)) \<Rightarrow> asserts_sent tr = [named_assert ''s2''])
   \<and> satisfied (state_asserts s1_passed ''t'') (named_assert ''s1'')"
proof -
  let ?asserts = "[named_assert ''s1'', named_assert ''s2'']"
  let ?hs = "[''h1'', ''h2'']"
  obtain res w' tr where par:
    "run_asserts_parallel (traced demo_engine) ?asserts s1_passed ''t'' ?hs 0 (0, []) = (res, (w', tr))"
    by (simp add: scenario_defs)
  obtain res' w'' tr' where ser:
    "run_asserts_series (traced demo_engine) ?asserts s1_passed ''t'' ?hs 0 (0, []) = (res', (w'', tr'))"
    by (simp add: scenario_defs)
  from satisfied_asserts_not_dispatched
    [of demo_engine ?asserts s1_passed "''t''" ?hs 0 0 res w' tr res' w'' tr'] par ser
  have "named_assert ''s1'' \<notin> set (asserts_sent tr)" "named_assert ''s1'' \<notin> set (asserts_sent tr')"
    by (auto simp: satisfied_def state_asserts_def s1_passed_def passed_status_def named_assert_def)
  moreover from par have "asserts_sent tr = [named_assert ''s2'', named_assert ''s2'']"
    by (auto simp: scenario_defs)
  moreover from ser have "asserts_sent tr' = [named_assert ''s2'']"
    by (auto simp: scenario_defs)
  ultimately show ?thesis
    unfolding par ser
    by (simp add: satisfied_def state_asserts_def s1_passed_def passed_status_def
        named_assert_def)
qed

section \<open>Properties of name verification\<close>

lemmas run_test_defs = run_test_def get_or_def get_default_cycles_def actions_have_asserts_def
  action_has_asserts_def inner_asserts_def
  verify_action_names_def verify_assert_names_def loop_condition_def getitem_def
  continue_running_def deref_def state_actions_def state_asserts_def get_remaining_asserts_def
  satisfied_def inner_statuses_def
  empty_entry_def poll_def dispatch_actions_def dispatch_asserts_def
  run_actions_parallel_def run_actions_series_def run_asserts_parallel_def run_asserts_series_def
  summary_of_def summary_with_def string_of_nat.simps run_cycles.simps

lemma name_action_asserts_named:
  "name_action_asserts i asserts = (names, asserts') \<Longrightarrow> list_all2 asrt_named asserts asserts'"
proof (induction asserts arbitrary: i names asserts')
  case Nil
  then show ?case by simp
next
  case (Cons a asserts)
  obtain ns rest where r: "name_action_asserts (Suc i) asserts = (ns, rest)"
    by (cases "name_action_asserts (Suc i) asserts")
  define name where
    "name = (case asrt_name a of None \<Rightarrow> ''Assert'' @ string_of_nat i | Some n \<Rightarrow> n)"
  from Cons.prems have res: "asserts' = a\<lparr>asrt_name := Some name\<rparr> # rest"
    by (simp add: r Let_def name_def)
  have head: "asrt_named a (a\<lparr>asrt_name := Some name\<rparr>)"
    by (simp add: asrt_named_def keeps_name_def name_def split: option.splits)
  from Cons.IH [OF r] head show ?case
    unfolding res by simp
qed

lemma verify_action_names_from_named:
  "verify_action_names_from eng tn names actions = (None, actions') \<Longrightarrow>
   list_all2 action_named actions actions'"
proof (induction actions arbitrary: names actions')
  case Nil
  then show ?case by (simp split: if_splits)
next
  case (Cons act actions)
  from Cons.prems obtain t where t: "action_type act = Some t"
    by (cases "action_type act") auto
  define name where "name = (case action_name act of None \<Rightarrow> create_item_name eng t names | Some n \<Rightarrow> n)"
  obtain ns inner' where inner: "name_action_asserts 0 (inner_asserts act) = (ns, inner')"
    by (cases "name_action_asserts 0 (inner_asserts act)")
  obtain err rest where rest: "verify_action_names_from eng tn (names @ [name]) actions = (err, rest)"
    by (cases "verify_action_names_from eng tn (names @ [name]) actions")
  define act' where "act' = act\<lparr>action_name := Some name,
      action_asserts := map_option (\<lambda>xs. inner') (action_asserts act)\<rparr>"
  from Cons.prems have err: "err = None" and res: "actions' = act' # rest"
    by (auto simp: t inner rest [unfolded name_def] Let_def name_def act'_def split: if_splits)
  have inner_eq: "inner_asserts act' = inner'"
    using inner by (cases "action_asserts act") (auto simp: act'_def inner_asserts_def)
  have head: "action_named act act'"
    unfolding action_named_def inner_eq
    using name_action_asserts_named [OF inner]
    by (simp add: act'_def keeps_name_def name_def split: option.splits)
  from Cons.IH [of "names @ [name]" rest] rest err head show ?case
    unfolding res by simp
qed

lemma verify_assert_names_from_named:
  "verify_assert_names_from eng tn names asserts = (None, asserts') \<Longrightarrow>
   list_all2 asrt_named asserts asserts'"
proof (induction asserts arbitrary: names asserts')
  case Nil
  then show ?case by (simp split: if_splits)
next
  case (Cons a asserts)
  from Cons.prems obtain t where t: "asrt_type a = Some t"
    by (cases "asrt_type a") auto
  define name where "name = (case asrt_name a of None \<Rightarrow> create_item_name eng t names | Some n \<Rightarrow> n)"
  obtain err rest where rest: "verify_assert_names_from eng tn (names @ [name]) asserts = (err, rest)"
    by (cases "verify_assert_names_from eng tn (names @ [name]) asserts")
  from Cons.prems have err: "err = None" and res: "asserts' = a\<lparr>asrt_name := Some name\<rparr> # rest"
    by (auto simp: t rest [unfolded name_def] Let_def name_def)
  have head: "asrt_named a (a\<lparr>asrt_name := Some name\<rparr>)"
    by (simp add: asrt_named_def keeps_name_def name_def split: option.splits)
  from Cons.IH [of "names @ [name]" rest] rest err head show ?case
    unfolding res by simp
qed

lemma keeps_name_present: "keeps_name before after \<Longrightarrow> after \<noteq> None"
  by (auto simp: keeps_name_def split: option.splits)

lemma asrt_named_all:
  "list_all2 asrt_named asserts asserts' \<Longrightarrow> \<forall>a \<in> set asserts'. asrt_name a \<noteq> None"
  by (induction rule: list_all2_induct) (auto simp: asrt_named_def dest: keeps_name_present)

lemma action_named_all:
  "list_all2 action_named actions actions' \<Longrightarrow>
   \<forall>act \<in> set actions'. action_name act \<noteq> None \<and> (\<forall>a \<in> set (inner_asserts act). asrt_name a \<noteq> None)"
  by (induction rule: list_all2_induct)
     (auto simp: action_named_def dest: keeps_name_present asrt_named_all)

lemma run_test_returns_verified:
  assumes "run_test eng test_config incoming_state hostnames timeout_signal_name h w =
             Some (Inr st', tc', h', w')"
  shows "\<exists>actions1 asserts1.
           verify_action_names eng (get_or (config_actions test_config) []) test_config
             = (None, actions1)
         \<and> verify_assert_names eng (get_or (config_asserts test_config) [])
               (test_config\<lparr>config_actions :=
                  map_option (\<lambda>xs. actions1) (config_actions test_config)\<rparr>)
             = (None, asserts1)
         \<and> tc' = test_config
               \<lparr>config_actions := map_option (\<lambda>xs. actions1) (config_actions test_config),
                config_asserts := map_option (\<lambda>xs. asserts1) (config_asserts test_config)\<rparr>"
proof -
  obtain err1 actions1 where
    v1: "verify_action_names eng (get_or (config_actions test_config) []) test_config
           = (err1, actions1)"
    by (cases "verify_action_names eng (get_or (config_actions test_config) []) test_config")
  obtain err2 asserts1 where
    v2: "verify_assert_names eng (get_or (config_asserts test_config) [])
           (test_config\<lparr>config_actions :=
              map_option (\<lambda>xs. actions1) (config_actions test_config)\<rparr>)
           = (err2, asserts1)"
    by (cases "verify_assert_names eng (get_or (config_asserts test_config) [])
           (test_config\<lparr>config_actions :=
              map_option (\<lambda>xs. actions1) (config_actions test_config)\<rparr>)")
  from assms have "err1 = None \<and> err2 = None \<and>
      tc' = test_config
               \<lparr>config_actions := map_option (\<lambda>xs. actions1) (config_actions test_config),
                config_asserts := map_option (\<lambda>xs. asserts1) (config_asserts test_config)\<rparr>"
    by (simp add: run_test_def Let_def v1 v2
          split: if_splits option.splits prod.splits sum.splits)
  with v1 v2 show ?thesis by auto
qed

text \<open>
  C9. The claim is that whenever the names the user gave are unique within their scope,
  \<open>verify_action_names\<close> and \<open>verify_assert_names\<close> raise nothing. The code
  raises on such an input: the action below is named \<open>a1\<close>, its first inner assert has
  no name and its second is named \<open>Assert0\<close> by the user, the only name given among
  the inner asserts. The loop names the first one \<open>Assert0\<close> (\<open>f"Assert{i}"\<close> with
  \<open>i = 0\<close>), which then collides with the user's name, and the assertion
  "Assert names for action a1 if specified must be unique" fails.
\<close>

theorem duplicate_after_auto_name:
  "fst (verify_action_names eng
         [\<lparr>action_type = Some ''POST'', action_name = Some ''a1'', action_params = Some (JObj []),
           action_asserts = Some
             [\<lparr>asrt_type = Some ''StatusCode'', asrt_name = None, asrt_params = Some (JObj [])\<rparr>,
              \<lparr>asrt_type = Some ''Body'', asrt_name = Some ''Assert0'',
                 asrt_params = Some (JObj [])\<rparr>]\<rparr>]
         test_config)
   = Some (AssertionError ''Assert names for action a1 if specified must be unique'')"
  by (simp add: verify_action_names_def inner_asserts_def string_of_nat.simps Let_def)

text \<open>
  C10. \<open>run_test\<close> writes names into the test configuration it is given: when it
  returns, the configuration it leaves has the same actions, inner asserts and top-level
  asserts as before, each with a name; a name the user gave is kept, and an absent one
  has been assigned.
\<close>

theorem run_test_writes_names:
  assumes "run_test eng test_config incoming_state hostnames timeout_signal_name h w =
             Some (Inr st', tc', h', w')"
  shows "rel_option (list_all2 action_named) (config_actions test_config) (config_actions tc')
       \<and> rel_option (list_all2 asrt_named) (config_asserts test_config) (config_asserts tc')
       \<and> (\<forall>act \<in> set (get_or (config_actions tc') []).
             action_name act \<noteq> None \<and> (\<forall>a \<in> set (inner_asserts act). asrt_name a \<noteq> None))
       \<and> (\<forall>a \<in> set (get_or (config_asserts tc') []). asrt_name a \<noteq> None)"
proof -
  from run_test_returns_verified [OF assms] obtain actions1 asserts1 where
    v1: "verify_action_names eng (get_or (config_actions test_config) []) test_config
           = (None, actions1)" and
    v2: "verify_assert_names eng (get_or (config_asserts test_config) [])
               (test_config\<lparr>config_actions :=
                  map_option (\<lambda>xs. actions1) (config_actions test_config)\<rparr>)
             = (None, asserts1)" and
    tc': "tc' = test_config
               \<lparr>config_actions := map_option (\<lambda>xs. actions1) (config_actions test_config),
                config_asserts := map_option (\<lambda>xs. asserts1) (config_asserts test_config)\<rparr>"
    by blast
  have a: "list_all2 action_named (get_or (config_actions test_config) []) actions1"
    using v1 by (simp add: verify_action_names_def verify_action_names_from_named)
  have b: "list_all2 asrt_named (get_or (config_asserts test_config) []) asserts1"
    using v2 by (simp add: verify_assert_names_def verify_assert_names_from_named)
  have r1: "rel_option (list_all2 action_named) (config_actions test_config) (config_actions tc')"
    using a by (cases "config_actions test_config") (simp_all add: tc' get_or_def)
  have r2: "rel_option (list_all2 asrt_named) (config_asserts test_config) (config_asserts tc')"
    using b by (cases "config_asserts test_config") (simp_all add: tc' get_or_def)
  have n1: "\<forall>act \<in> set (get_or (config_actions tc') []).
             action_name act \<noteq> None \<and> (\<forall>a \<in> set (inner_asserts act). asrt_name a \<noteq> None)"
    using action_named_all [OF a]
    by (cases "config_actions test_config") (simp_all add: tc' get_or_def)
  have n2: "\<forall>a \<in> set (get_or (config_asserts tc') []). asrt_name a \<noteq> None"
    using asrt_named_all [OF b]
    by (cases "config_asserts test_config") (simp_all add: tc' get_or_def)
  from r1 r2 n1 n2 show ?thesis by blast
qed

theorem run_test_writes_names_witness:
  "(case run_test demo_engine nameless_config Map.empty [''h1''] None [] 0 of
      Some (Inr st', tc', h', w') \<Rightarrow>
        map action_name (get_or (config_actions tc') []) = [Some ''POST0'']
        \<and> map (\<lambda>act. map asrt_name (inner_asserts act)) (get_or (config_actions tc') [])
            = [[Some ''Assert0'']]
        \<and> map asrt_name (get_or (config_asserts tc') []) = [Some ''StatusCode0'']
    | _ \<Rightarrow> False)"
proof -
  obtain st' tc' h' w' where
    run: "run_test demo_engine nameless_config Map.empty [''h1''] None [] 0
            = Some (Inr st', tc', h', w')"
    and names: "map action_name (get_or (config_actions tc') []) = [Some ''POST0'']
        \<and> map (\<lambda>act. map asrt_name (inner_asserts act)) (get_or (config_actions tc') [])
            = [[Some ''Assert0'']]
        \<and> map asrt_name (get_or (config_asserts tc') []) = [Some ''StatusCode0'']"
    by (simp add: run_test_defs nameless_config_def base_config_def demo_engine_def Let_def)
  from run_test_writes_names [OF run]
  have "\<forall>act \<in> set (get_or (config_actions tc') []). action_name act \<noteq> None"
    by blast
  with names show ?thesis
    unfolding run by simp
qed

section \<open>Properties of the cycle engine\<close>



lemma getitem_present: "st k = Some a \<Longrightarrow> getitem st h k = (a, st, h)"
  by (simp add: getitem_def)

lemma getitem_valid:
  "valid_entry st h k \<Longrightarrow> getitem st h k = (a, st1, h1) \<Longrightarrow>
     st1 k = Some a \<and> a < length h1"
  by (auto simp: getitem_def valid_entry_def split: option.splits)

lemma continue_running_no_asserts:
  "\<not> actions_have_asserts actions \<Longrightarrow>
   continue_running actions [] remaining_cycles actions_data sts = Inr (remaining_cycles \<noteq> 0)"
  by (simp add: continue_running_def)

lemma loop_condition_no_asserts:
  "\<not> actions_have_asserts actions \<Longrightarrow> st (config_name tc) = Some a \<Longrightarrow>
   loop_condition tc actions [] remaining_cycles st h = (Inr (remaining_cycles \<noteq> 0), st, h)"
  by (simp add: loop_condition_def getitem_present continue_running_no_asserts)

lemma run_cycles_stop:
  "loop_condition tc actions asserts remaining_cycles st h = (Inr False, st1, h1) \<Longrightarrow>
   run_cycles eng tc actions asserts hostnames signal remaining_cycles completed st h w =
     Some (None, completed, st1, h1, w)"
  by (subst run_cycles.simps) simp

lemma dispatch_actions_present:
  "st (config_name tc) = Some a \<Longrightarrow>
   \<exists>r h' w'. dispatch_actions eng tc actions hostnames st h w = (r, st, h', w')
     \<and> length h' = length h"
  by (auto simp: dispatch_actions_def getitem_present Let_def split: prod.splits sum.splits)

lemma dispatch_asserts_none:
  "dispatch_asserts eng tc [] hostnames st h w = (None, st, h, w)"
  by (simp add: dispatch_asserts_def)

lemma run_cycles_once:
  assumes na: "\<not> actions_have_asserts actions" and st: "st (config_name tc) = Some a"
    and polled: "poll eng signal w = (keep, w1)"
  shows "\<exists>r h' w'. run_cycles eng tc actions [] hostnames signal 1 0 st h w
            = Some (r, (if r = None \<and> keep then 1 else 0), st, h', w') \<and> length h' = length h"
proof -
  have lc: "loop_condition tc actions [] rc st hh = (Inr (rc \<noteq> 0), st, hh)" for rc hh
    using na st by (simp add: loop_condition_no_asserts)
  show ?thesis
  proof (cases keep)
    case False
    have "run_cycles eng tc actions [] hostnames signal 1 0 st h w = Some (None, 0, st, h, w1)"
      by (subst run_cycles.simps) (simp add: lc polled False)
    then show ?thesis using False by simp
  next
    case True
    from dispatch_actions_present [of st tc a eng actions hostnames h w1] st
    obtain r h' w' where d: "dispatch_actions eng tc actions hostnames st h w1 = (r, st, h', w')"
      and len: "length h' = length h" by blast
    show ?thesis
    proof (cases r)
      case None
      have "run_cycles eng tc actions [] hostnames signal 1 0 st h w =
              run_cycles eng tc actions [] hostnames signal 0 1 st h' w'"
        by (subst run_cycles.simps)
           (simp add: lc polled True d None dispatch_asserts_none)
      also have "\<dots> = Some (None, 1, st, h', w')"
        by (rule run_cycles_stop) (simp add: lc)
      finally show ?thesis using None len True by simp
    next
      case (Some e)
      have "run_cycles eng tc actions [] hostnames signal 1 0 st h w
              = Some (Some e, 0, st, h', w')"
        by (subst run_cycles.simps)
           (simp add: lc polled True d Some)
      then show ?thesis using Some len by simp
    qed
  qed
qed

lemma getitem_Some: "getitem st h k = (a, st1, h1) \<Longrightarrow> st1 k = Some a"
  by (auto simp: getitem_def split: option.splits)

lemma getitem_twice:
  "getitem st h k = (a, st1, h1) \<Longrightarrow> getitem st1 h1 k = (a, st1, h1)"
  by (rule getitem_present) (rule getitem_Some)

lemma loop_condition_getitem:
  "getitem st h (config_name tc) = (a, st1, h1) \<Longrightarrow>
   loop_condition tc actions asserts rc st h = loop_condition tc actions asserts rc st1 h1"
  by (simp add: loop_condition_def getitem_twice)

lemma run_cycles_getitem:
  assumes "getitem st h (config_name tc) = (a, st1, h1)"
  shows "run_cycles eng tc actions asserts hostnames signal rc completed st h w =
         run_cycles eng tc actions asserts hostnames signal rc completed st1 h1 w"
  apply (rule trans [OF run_cycles.simps])
  apply (rule trans [OF _ run_cycles.simps [symmetric]])
  apply (simp only: loop_condition_getitem [OF assms])
  done

lemma no_items_unchanged: "get_or v [] = [] \<Longrightarrow> map_option (\<lambda>xs. []) v = v"
  by (cases v) (simp_all add: get_or_def)

lemma verify_action_names_nil: "verify_action_names eng [] tc = (None, [])"
  by (simp add: verify_action_names_def)

lemma verify_assert_names_nil: "verify_assert_names eng [] tc = (None, [])"
  by (simp add: verify_assert_names_def)

lemma run_test_dry:
  assumes "get_or (config_actions tc) [] = []" "get_or (config_asserts tc) [] = []"
    "config_cycles tc = None" "hostnames \<noteq> []"
    "getitem incoming h (config_name tc) = (a, st1, h1)"
  shows "run_test eng tc incoming hostnames signal h w =
     Some (Inr st1, tc,
           h1[a := (h1 ! a)\<lparr>entry_summary := Some (summary_with tc 0 [] 0)\<rparr>], w)"
proof -
  have lc: "loop_condition tc [] [] 0 incoming h = (Inr False, st1, h1)"
    by (simp add: loop_condition_def assms(5) continue_running_def actions_have_asserts_def)
  have run: "run_cycles eng tc [] [] hostnames signal 0 0 incoming h w =
      Some (None, 0, st1, h1, w)"
    by (rule run_cycles_stop [OF lc])
  show ?thesis
    unfolding run_test_def
    by (simp add: assms(1-4) Let_def verify_action_names_nil verify_assert_names_nil
        get_default_cycles_def actions_have_asserts_def no_items_unchanged run
        getitem_twice [OF assms(5)] get_remaining_asserts_def summary_with_def
        get_or_def [of None])
qed

lemma list_all2_member:
  "list_all2 P xs ys \<Longrightarrow> y \<in> set ys \<Longrightarrow> \<exists>x \<in> set xs. P x y"
  by (induction rule: list_all2_induct) auto

lemma summary_of_update:
  "st n = Some a \<Longrightarrow> a < length h \<Longrightarrow>
   summary_of (h[a := (h ! a)\<lparr>entry_summary := Some s\<rparr>]) st n = Some s"
  by (simp add: summary_of_def)

lemma run_cycles_once_any:
  assumes na: "\<not> actions_have_asserts actions"
    and g: "getitem st h (config_name tc) = (a, st1, h1)"
    and polled: "poll eng signal w = (keep, w1)"
  shows "\<exists>r h' w'. run_cycles eng tc actions [] hostnames signal 1 0 st h w
            = Some (r, (if r = None \<and> keep then 1 else 0), st1, h', w')
          \<and> length h' = length h1"
  unfolding run_cycles_getitem [OF g]
  using run_cycles_once [of actions st1 tc a eng signal w keep w1 hostnames h1] na
    getitem_Some [OF g] polled
  by simp

lemma run_test_actions_only:
  assumes acts: "get_or (config_actions tc) [] \<noteq> []"
    and asserts: "get_or (config_asserts tc) [] = []"
    and na: "\<not> actions_have_asserts (get_or (config_actions tc) [])"
    and cycles: "config_cycles tc = None"
    and hosts: "hostnames \<noteq> []"
    and valid: "valid_entry incoming h (config_name tc)"
  shows "\<exists>res tc' h' w'.
           run_test eng tc incoming hostnames signal h w = Some (res, tc', h', w')
           \<and> (\<forall>st'. res = Inr st' \<longrightarrow>
                  map_option completed_cycles (summary_of h' st' (config_name tc))
                    = Some (if fst (poll eng signal w) then 1 else 0))"
proof -
  let ?actions = "get_or (config_actions tc) []"
  obtain keep w1 where polled: "poll eng signal w = (keep, w1)"
    by (cases "poll eng signal w")
  obtain err1 actions1 where v1: "verify_action_names eng ?actions tc = (err1, actions1)"
    by (cases "verify_action_names eng ?actions tc")
  let ?tc1 = "tc\<lparr>config_actions := map_option (\<lambda>xs. actions1) (config_actions tc)\<rparr>"
  let ?tc2 = "?tc1\<lparr>config_asserts := map_option (\<lambda>xs. []) (config_asserts ?tc1)\<rparr>"
  have dc: "get_default_cycles ?actions [] = 1"
    using acts na by (simp add: get_default_cycles_def)
  show ?thesis
  proof (cases err1)
    case (Some e)
    then show ?thesis
      by (simp add: run_test_def Let_def hosts v1)
  next
    case None
    from v1 None have rel: "list_all2 action_named ?actions actions1"
      by (simp add: verify_action_names_def verify_action_names_from_named)
    have na1: "\<not> actions_have_asserts actions1"
    proof
      assume "actions_have_asserts actions1"
      then obtain act' where "act' \<in> set actions1" "inner_asserts act' \<noteq> []"
        by (auto simp: actions_have_asserts_def action_has_asserts_def)
      with list_all2_member [OF rel] obtain act where
        "act \<in> set ?actions" "action_named act act'"
        by blast
      then have "inner_asserts act \<noteq> []"
        using \<open>inner_asserts act' \<noteq> []\<close> by (auto simp: action_named_def)
      with \<open>act \<in> set ?actions\<close> na show False
        by (auto simp: actions_have_asserts_def action_has_asserts_def)
    qed
    obtain a st1 h1 where g: "getitem incoming h (config_name tc) = (a, st1, h1)"
      by (cases "getitem incoming h (config_name tc)")
    from getitem_valid [OF valid g] have a: "st1 (config_name tc) = Some a" "a < length h1"
      by simp_all
    have name2: "config_name ?tc2 = config_name tc" by simp
    from run_cycles_once_any [OF na1, of incoming h ?tc2 a st1 h1 eng signal w keep w1 hostnames]
      g polled
    obtain r h' w' where
      run: "run_cycles eng ?tc2 actions1 [] hostnames signal 1 0 incoming h w
              = Some (r, (if r = None \<and> keep then 1 else 0), st1, h', w')"
      and len: "length h' = length h1"
      by (auto simp: name2)
    show ?thesis
    proof (cases r)
      case (Some e)
      then show ?thesis
        using run
        by (simp add: run_test_def Let_def hosts v1 None asserts verify_assert_names_nil
            cycles dc get_or_def [of None])
    next
      case None': None
      have fin: "getitem st1 h' (config_name tc) = (a, st1, h')"
        by (rule getitem_present) (rule a(1))
      show ?thesis
        using run a len
        by (simp add: run_test_def Let_def hosts v1 None None' asserts verify_assert_names_nil
            cycles dc get_or_def [of None] fin get_remaining_asserts_def summary_of_update
            polled)
    qed
  qed
qed

text \<open>
  C2. The claim is that \<open>run_test\<close> leaves \<open>incoming_state\<close> and every entry it
  held as they were; the docstring of \<open>run_test\<close> says the same ("does not modify").
  \<open>defaultdict(dict, incoming_state)\<close> copies the mapping but shares its entries, so
  when \<open>incoming_state\<close> already holds an entry under the test's name, the summary is
  written into that very entry. Here the incoming state holds the entry of an earlier run
  of \<open>t\<close>; after the call the caller's state, read through the store, shows the new
  summary in place of the old one.
\<close>

theorem run_test_overwrites_incoming_entry:
  "(case run_test demo_engine base_config [''t'' \<mapsto> 0] [''h1''] None [old_entry] 0 of
      Some (Inr st', tc', h', w') \<Rightarrow>
        summary_of [old_entry] [''t'' \<mapsto> 0] ''t'' = Some old_summary
        \<and> summary_of h' [''t'' \<mapsto> 0] ''t'' = Some (summary_with base_config 0 [] 0)
        \<and> summary_with base_config 0 [] 0 \<noteq> old_summary
    | _ \<Rightarrow> False)"
  by (simp add: run_test_defs base_config_def demo_engine_def old_entry_def old_summary_def)

text \<open>
  C6, as the code has it. \<open>get_default_cycles\<close> is \<open>0\<close> with no actions and no
  asserts, \<open>1\<close> with actions and no top-level or inner asserts, and \<open>-1\<close> as soon as
  there is a top-level or an inner assert. With at least one hostname and \<open>cycles\<close>
  unset: a test with no actions and no asserts returns with \<open>completed_cycles = 0\<close>,
  and its entry holds only the summary when the incoming state had no entry for the test;
  a test with actions and no top-level or inner asserts ends, and when it returns a state
  its summary has \<open>completed_cycles = 1\<close>, for every timeout signal whose flag reads
  true at the first poll and when there is no signal; where the flag already reads false
  at the first poll it has \<open>completed_cycles = 0\<close>.
\<close>

theorem default_and_completed_cycles:
  "get_default_cycles [] [] = 0
   \<and> (actions \<noteq> [] \<and> \<not> actions_have_asserts actions \<longrightarrow> get_default_cycles actions [] = 1)
   \<and> (asserts \<noteq> [] \<or> actions_have_asserts actions \<longrightarrow> get_default_cycles actions asserts = - 1)
   \<and> (get_or (config_actions tc) [] = [] \<and> get_or (config_asserts tc) [] = []
        \<and> config_cycles tc = None \<and> hostnames \<noteq> []
        \<and> valid_entry incoming h (config_name tc)
      \<longrightarrow> (\<exists>st' h'.
             run_test eng tc incoming hostnames signal h w = Some (Inr st', tc, h', w)
             \<and> map_option completed_cycles (summary_of h' st' (config_name tc)) = Some 0
             \<and> (incoming (config_name tc) = None \<longrightarrow>
                  (\<exists>a. st' (config_name tc) = Some a
                     \<and> h' ! a = empty_entry\<lparr>entry_summary := Some (summary_with tc 0 [] 0)\<rparr>))))
   \<and> (get_or (config_actions tc) [] \<noteq> [] \<and> get_or (config_asserts tc) [] = []
        \<and> \<not> actions_have_asserts (get_or (config_actions tc) [])
        \<and> config_cycles tc = None \<and> hostnames \<noteq> []
        \<and> valid_entry incoming h (config_name tc)
      \<longrightarrow> (\<exists>res tc' h' w'.
             run_test eng tc incoming hostnames signal h w = Some (res, tc', h', w')
             \<and> (\<forall>st'. res = Inr st' \<longrightarrow>
                    map_option completed_cycles (summary_of h' st' (config_name tc))
                      = Some (if fst (poll eng signal w) then 1 else 0))))"
proof (intro conjI impI)
  show "get_default_cycles [] [] = 0"
    by (simp add: get_default_cycles_def actions_have_asserts_def)
  show "get_default_cycles actions [] = 1" if "actions \<noteq> [] \<and> \<not> actions_have_asserts actions"
    using that by (simp add: get_default_cycles_def)
  show "get_default_cycles actions asserts = - 1" if "asserts \<noteq> [] \<or> actions_have_asserts actions"
    using that by (auto simp: get_default_cycles_def)
next
  assume a: "get_or (config_actions tc) [] = [] \<and> get_or (config_asserts tc) [] = []
        \<and> config_cycles tc = None \<and> hostnames \<noteq> []
        \<and> valid_entry incoming h (config_name tc)"
  obtain a st1 h1 where g: "getitem incoming h (config_name tc) = (a, st1, h1)"
    by (cases "getitem incoming h (config_name tc)")
  from a getitem_valid [OF _ g] have v: "st1 (config_name tc) = Some a" "a < length h1"
    by simp_all
  from a have run: "run_test eng tc incoming hostnames signal h w =
     Some (Inr st1, tc,
           h1[a := (h1 ! a)\<lparr>entry_summary := Some (summary_with tc 0 [] 0)\<rparr>], w)"
    by (intro run_test_dry [OF _ _ _ _ g]) simp_all
  have fresh: "h1[a := (h1 ! a)\<lparr>entry_summary := Some (summary_with tc 0 [] 0)\<rparr>] ! a
      = empty_entry\<lparr>entry_summary := Some (summary_with tc 0 [] 0)\<rparr>"
    if "incoming (config_name tc) = None"
    using g that by (auto simp: getitem_def)
  show "\<exists>st' h'.
             run_test eng tc incoming hostnames signal h w = Some (Inr st', tc, h', w)
             \<and> map_option completed_cycles (summary_of h' st' (config_name tc)) = Some 0
             \<and> (incoming (config_name tc) = None \<longrightarrow>
                  (\<exists>a. st' (config_name tc) = Some a
                     \<and> h' ! a = empty_entry\<lparr>entry_summary := Some (summary_with tc 0 [] 0)\<rparr>))"
    unfolding run using v fresh
    by (auto simp: summary_of_update summary_with_def)
next
  assume "get_or (config_actions tc) [] \<noteq> [] \<and> get_or (config_asserts tc) [] = []
        \<and> \<not> actions_have_asserts (get_or (config_actions tc) [])
        \<and> config_cycles tc = None \<and> hostnames \<noteq> []
        \<and> valid_entry incoming h (config_name tc)"
  then show "\<exists>res tc' h' w'.
             run_test eng tc incoming hostnames signal h w = Some (res, tc', h', w')
             \<and> (\<forall>st'. res = Inr st' \<longrightarrow>
                    map_option completed_cycles (summary_of h' st' (config_name tc))
                      = Some (if fst (poll eng signal w) then 1 else 0))"
    by (intro run_test_actions_only) simp_all
qed

text \<open>
  C6 as stated fails in each of these runs. A test with no actions and no asserts and
  \<open>cycles = 2\<close> completes two cycles. Where the incoming state already holds an entry
  for the test with actions data, the entry after the run holds more than a summary. With
  no hostname, \<open>run_test\<close> raises before the loop, with or without actions. A test with
  one action whose timeout flag already reads false at the first poll completes no cycle.
  A test with one action and an unknown \<open>actionDistributionStrategy\<close> raises in its
  first cycle and returns no state.
\<close>

theorem explicit_cycles_counterexample:
  "(case run_test demo_engine (base_config\<lparr>config_cycles := Some 2\<rparr>) Map.empty [''h1''] None [] 0 of
      Some (Inr st', tc', h', w') \<Rightarrow>
        map_option completed_cycles (summary_of h' st' ''t'') = Some 2
    | _ \<Rightarrow> False)
   \<and> (case run_test demo_engine base_config [''t'' \<mapsto> 0] [''h1''] None [old_entry] 0 of
      Some (Inr st', tc', h', w') \<Rightarrow>
        map_option completed_cycles (summary_of h' st' ''t'') = Some 0
        \<and> entry_actions (h' ! 0) \<noteq> None
    | _ \<Rightarrow> False)
   \<and> (case run_test demo_engine base_config Map.empty [] None [] 0 of
      Some (Inl e, tc', h', w') \<Rightarrow>
        e = AssertionError ''Must have at least one host to run tests'' \<and> h' = []
    | _ \<Rightarrow> False)
   \<and> (case run_test demo_engine one_action_config Map.empty [] None [] 0 of
      Some (Inl e, tc', h', w') \<Rightarrow>
        e = AssertionError ''Must have at least one host to run tests'' \<and> h' = []
    | _ \<Rightarrow> False)
   \<and> (case run_test (demo_engine\<lparr>keep_going := (\<lambda>signal w. (False, w))\<rparr>) one_action_config
             Map.empty [''h1''] (Some ''keep-going-1'') [] 0 of
      Some (Inr st', tc', h', w') \<Rightarrow>
        map_option completed_cycles (summary_of h' st' ''t'') = Some 0
    | _ \<Rightarrow> False)
   \<and> (case run_test demo_engine
             (one_action_config\<lparr>config_actionDistributionStrategy := Some ''random''\<rparr>)
             Map.empty [''h1''] None [] 0 of
      Some (Inl (AssertionError m), tc', h', w') \<Rightarrow> summary_of h' [''t'' \<mapsto> 0] ''t'' = None
    | _ \<Rightarrow> False)"
  by (simp add: run_test_defs base_config_def one_action_config_def post_action_def
      demo_engine_def old_entry_def old_summary_def)

theorem default_and_completed_cycles_witness:
  "get_default_cycles [] [] = 0
   \<and> get_default_cycles [post_action] [] = 1
   \<and> get_default_cycles [post_action] [status_assert] = - 1
   \<and> (case run_test demo_engine base_config Map.empty [''h1''] None [] 0 of
        Some (Inr st', tc', h', w') \<Rightarrow>
          map_option completed_cycles (summary_of h' st' ''t'') = Some 0
          \<and> h' ! 0 = empty_entry\<lparr>entry_summary := Some (summary_with base_config 0 [] 0)\<rparr>
      | _ \<Rightarrow> False)
   \<and> (case run_test demo_engine one_action_config Map.empty [''h1'']
              (Some ''keep-going-1'') [] 0 of
        Some (Inr st', tc', h', w') \<Rightarrow>
          map_option completed_cycles (summary_of h' st' ''t'') = Some 1
      | _ \<Rightarrow> False)"
proof -
  note thm0 = default_and_completed_cycles
    [of "[post_action]" "[status_assert]" base_config "[''h1'']" Map.empty "[]" demo_engine None 0]
  note thm1 = default_and_completed_cycles
    [of "[post_action]" "[status_assert]" one_action_config "[''h1'']" Map.empty "[]" demo_engine
        "Some ''keep-going-1''" 0]
  have hyp0: "get_or (config_actions base_config) [] = [] \<and> get_or (config_asserts base_config) [] = []
        \<and> config_cycles base_config = None \<and> [''h1''] \<noteq> []
        \<and> valid_entry Map.empty [] (config_name base_config)"
    by (simp add: base_config_def get_or_def valid_entry_def)
  have hyp1: "get_or (config_actions one_action_config) [] \<noteq> []
        \<and> get_or (config_asserts one_action_config) [] = []
        \<and> \<not> actions_have_asserts (get_or (config_actions one_action_config) [])
        \<and> config_cycles one_action_config = None \<and> [''h1''] \<noteq> []
        \<and> valid_entry Map.empty [] (config_name one_action_config)"
    by (simp add: one_action_config_def base_config_def get_or_def valid_entry_def post_action_def
        actions_have_asserts_def action_has_asserts_def inner_asserts_def)
  have flag: "fst (poll demo_engine (Some ''keep-going-1'') 0)"
    by (simp add: poll_def demo_engine_def)
  have d: "get_default_cycles [] [] = 0 \<and> get_default_cycles [post_action] [] = 1
      \<and> get_default_cycles [post_action] [status_assert] = - 1"
    using thm0 by (simp add: post_action_def actions_have_asserts_def action_has_asserts_def
        inner_asserts_def)
  from thm0 hyp0 obtain st0 h0 where
    run0: "run_test demo_engine base_config Map.empty [''h1''] None [] 0
             = Some (Inr st0, base_config, h0, 0)"
    and c0: "map_option completed_cycles (summary_of h0 st0 (config_name base_config)) = Some 0"
    and e0: "\<exists>a. st0 (config_name base_config) = Some a
               \<and> h0 ! a = empty_entry\<lparr>entry_summary := Some (summary_with base_config 0 [] 0)\<rparr>"
    by auto
  have a0: "st0 ''t'' = Some 0"
    using run0 by (auto simp: run_test_defs base_config_def demo_engine_def)
  from thm1 hyp1 flag obtain res1 tc1 h1 w1 where
    run1: "run_test demo_engine one_action_config Map.empty [''h1''] (Some ''keep-going-1'') [] 0
             = Some (res1, tc1, h1, w1)"
    and c1: "\<forall>st'. res1 = Inr st' \<longrightarrow>
               map_option completed_cycles (summary_of h1 st' (config_name one_action_config))
                 = Some 1"
    by auto
  have "\<exists>st'. res1 = Inr st'"
    using run1
    by (auto simp: run_test_defs one_action_config_def base_config_def demo_engine_def
        post_action_def)
  then obtain st1 where r1: "res1 = Inr st1" ..
  show ?thesis
    unfolding run0 run1 r1
    using d c0 e0 a0 c1 r1
    by (simp add: base_config_def one_action_config_def)
qed

section \<open>Properties of the runner lifecycle\<close>

lemma provision_logged:
  "provision b img env run_id volumes n runners p = (err, runners', p') \<Longrightarrow>
   \<exists>new. runners' = runners @ new \<and>
     provision (logged b) img env run_id volumes n runners (p, evs)
       = (err, runners', (p', evs @ map Created new))"
proof (induction n arbitrary: runners p evs)
  case 0
  then show ?case by simp
next
  case (Suc n)
  obtain r p1 where c: "create_runner_fn b img env run_id volumes p = (r, p1)"
    by (cases "create_runner_fn b img env run_id volumes p")
  show ?case
  proof (cases r)
    case (Inl e)
    with Suc.prems c show ?thesis by (simp add: logged_def)
  next
    case (Inr runner)
    with Suc.prems c have
      "provision b img env run_id volumes n (runners @ [runner]) p1 = (err, runners', p')"
      by simp
    from Suc.IH [OF this, of "evs @ [Created runner]"] obtain new where
      "runners' = (runners @ [runner]) @ new"
      "provision (logged b) img env run_id volumes n (runners @ [runner])
         (p1, evs @ [Created runner]) = (err, runners', (p', (evs @ [Created runner]) @ map Created new))"
      by blast
    then show ?thesis
      using c Inr by (intro exI [of _ "runner # new"]) (simp add: logged_def)
  qed
qed

lemma remove_all_logged:
  "remove_all b runners p = (err, p') \<Longrightarrow>
   \<exists>removed. remove_all (logged b) runners (p, evs) = (err, (p', evs @ map Removed removed))
     \<and> (err = None \<longrightarrow> removed = runners)"
proof (induction runners arbitrary: p evs)
  case Nil
  then show ?case by simp
next
  case (Cons runner runners)
  obtain r p1 where c: "remove_runner_fn b runner p = (r, p1)"
    by (cases "remove_runner_fn b runner p")
  show ?case
  proof (cases r)
    case (Some e)
    with Cons.prems c show ?thesis
      by (intro exI [of _ "[]"]) (auto simp: logged_def)
  next
    case None
    with Cons.prems c have "remove_all b runners p1 = (err, p')" by simp
    from Cons.IH [OF this, of "evs @ [Removed runner]"] obtain removed where
      "remove_all (logged b) runners (p1, evs @ [Removed runner])
         = (err, (p', (evs @ [Removed runner]) @ map Removed removed))"
      "err = None \<longrightarrow> removed = runners"
      by blast
    then show ?thesis
      using c None by (intro exI [of _ "runner # removed"]) (simp add: logged_def)
  qed
qed

lemmas infra_defs = demo_settings_def demo_infra_def up_transport_def down_transport_def
  down_error_def first_up_transport_def docker_backend_def kube_backend_def plain_rendering_def
  create_docker_container_def configure_network_def networks_get_def networks_create_def
  containers_run_def container_stop_def stop_docker_container_def get_docker_hostname_def
  uuid4_def runner_type_of_def container_is_healthy_def container_is_healthy_from.simps
  runner_healthcheck_def is_APIError_def
  stop_kube_pod_def delete_namespaced_pod_def delete_namespaced_service_def get_pod_hostname_def
  closure_def resolve_image_def runner_to_image_def config_to_runner_env_def outer_except_def
  caught_def error_entry_def run_test_with_timeout_def one_action_config_def logged_def
  demo_container_def

text \<open>
  C1. The claim is that every runner provisioned during a test is reaped on every exit
  path, also when provisioning raises after some runners were created and when a runner
  fails its health gate. The closure reaps after the test execution, on its return and in
  the inner \<open>except\<close>; its outer \<open>except\<close>, where a provisioning error arrives, removes
  nothing. Here \<open>runnerCount = 2\<close>, the first container becomes healthy and the second
  never does: the second \<open>create_docker_container\<close> raises, the closure returns the
  error summary, the one runner it was given has not been removed, and both containers,
  the unhealthy one too, are still running. The last part is the health gate alone:
  \<open>create_docker_container\<close> raises after the last retry with the container it started
  still running.
\<close>

theorem partial_provisioning_not_reaped:
  "(case closure demo_engine (logged (docker_backend demo_settings)) plain_rendering
           (one_action_config\<lparr>config_runnerCount := Some 2\<rparr>) ''run-1'' Map.empty [] 0
           (demo_infra\<lparr>net := (\<lambda>t. first_up_transport)\<rparr>, []) of
      Some (Inr st', h', w', (p', evs)) \<Rightarrow>
        evs = [Created demo_container]
        \<and> map container_name (running p')
          = [''cicada-2-rest-runner-00000000'', ''cicada-2-rest-runner-00000001'']
        \<and> map_option summary_error (summary_of h' st' ''t'')
          = Some (Some ''Unable to successfully contact container'')
    | _ \<Rightarrow> False)
   \<and> (case create_docker_container demo_settings ''cicadatesting/cicada-2-rest-runner'' []
           ''run-1'' None (demo_infra\<lparr>net := (\<lambda>t. down_transport)\<rparr>) of
      (Inl e, p') \<Rightarrow>
        e = RuntimeError ''Unable to successfully contact container''
        \<and> map container_name (running p') = [''cicada-2-rest-runner-00000000'']
    | (Inr c, p') \<Rightarrow> False)"
  by (simp add: infra_defs run_test_defs base_config_def demo_engine_def post_action_def
      Let_def eval_nat_numeral)

text \<open>
  X1. Where provisioning does not raise, the closure does reap. When the test document
  renders, an image resolves, every one of the \<open>runnerCount\<close> provisioning calls returns
  a runner, the test execution ends by returning a state (also after a timeout) or by
  raising one of the four exception classes the closure catches, and the removal loop
  that follows does not raise: then the closure returns or raises having removed every
  runner it created, each after all were created. (On an exception the loop runs a second
  time over the same runners.)
\<close>

theorem provisioned_runners_removed:
  assumes render: "render_section col test_config (deref h st) = Inr rendered"
    and img: "resolve_image rendered = Some img"
    and config: "render_config col (get_or (config_config rendered) []) (deref h st) = Inr config"
    and created: "provision b img (config_to_runner_env config) run_id (config_volumes rendered)
                    (nat (get_or (config_runnerCount rendered) 1)) [] p = (None, runners, p1)"
    and ran: "run_test_with_timeout eng rendered st (map (get_runner_hostname_fn b) runners)
                (Some (get_or (config_timeout rendered) 15)) h w = Some (res, tc', h1, w1)"
    and outcome: "case res of Inr new_state \<Rightarrow> True | Inl err \<Rightarrow> caught col err"
    and removed: "remove_all b runners p1 = (None, p2)"
  shows "\<exists>out h' w' p' more.
           closure eng (logged b) col test_config run_id st h w (p, [])
             = Some (out, h', w', (p', map Created runners @ map Removed runners @ map Removed more))"
proof -
  from provision_logged [OF created, of "[]"] have
    prov: "provision (logged b) img (config_to_runner_env config) run_id (config_volumes rendered)
             (nat (get_or (config_runnerCount rendered) 1)) [] (p, [])
           = (None, runners, (p1, map Created runners))"
    by auto
  from remove_all_logged [OF removed, of "map Created runners"] have
    rem: "remove_all (logged b) runners (p1, map Created runners)
           = (None, (p2, map Created runners @ map Removed runners))"
    by auto
  have host: "get_runner_hostname_fn (logged b) = get_runner_hostname_fn b"
    by (simp add: logged_def)
  note start = closure_def render img config prov host ran rem
  show ?thesis
  proof (cases res)
    case (Inr new_state)
    show ?thesis
      by (rule exI [of _ "Inr (st ++ new_state)"], rule exI [of _ h1], rule exI [of _ w1],
          rule exI [of _ p2], rule exI [of _ "[]"]) (simp add: start Inr)
  next
    case (Inl err)
    with outcome have c: "caught col err" by simp
    obtain e2 p3 where again: "remove_all b runners p2 = (e2, p3)"
      by (cases "remove_all b runners p2")
    from remove_all_logged [OF again, of "map Created runners @ map Removed runners"]
    obtain more where
      rem2: "remove_all (logged b) runners (p2, map Created runners @ map Removed runners)
           = (e2, (p3, (map Created runners @ map Removed runners) @ map Removed more))"
      by blast
    show ?thesis
      by (cases e2) (auto simp: start Inl c rem2 outer_except_def)
  qed
qed

theorem provisioned_runners_removed_witness:
  "(case closure demo_engine (logged (docker_backend demo_settings)) plain_rendering
           one_action_config ''run-1'' Map.empty [] 0 (demo_infra, []) of
      Some (Inr st', h', w', (p', evs)) \<Rightarrow>
        evs = [Created demo_container, Removed demo_container]
        \<and> running p' = []
        \<and> map_option completed_cycles (summary_of h' st' ''t'') = Some 1
    | _ \<Rightarrow> False)"
proof -
  let ?b = "docker_backend demo_settings"
  let ?img = "''cicadatesting/cicada-2-rest-runner''"
  have render: "render_section plain_rendering one_action_config (deref [] Map.empty)
      = Inr one_action_config"
    by (simp add: plain_rendering_def)
  have img: "resolve_image one_action_config = Some ?img"
    by (simp add: resolve_image_def runner_to_image_def one_action_config_def base_config_def)
  have config: "render_config plain_rendering (get_or (config_config one_action_config) [])
      (deref [] Map.empty) = Inr []"
    by (simp add: plain_rendering_def one_action_config_def base_config_def get_or_def)
  obtain p1 where
    created: "provision ?b ?img (config_to_runner_env []) ''run-1''
       (config_volumes one_action_config)
       (nat (get_or (config_runnerCount one_action_config) 1)) [] demo_infra
       = (None, [demo_container], p1)"
    and up: "docker_up p1"
    by (simp add: infra_defs base_config_def get_or_def Let_def string_of_nat.simps
        eval_nat_numeral)
  obtain res tc' h1 w1 where
    ran: "run_test_with_timeout demo_engine one_action_config Map.empty
       (map (get_runner_hostname_fn ?b) [demo_container])
       (Some (get_or (config_timeout one_action_config) 15)) [] 0 = Some (res, tc', h1, w1)"
    and ok: "case res of Inr new_state \<Rightarrow> True | Inl err \<Rightarrow> caught plain_rendering err"
    by (simp add: infra_defs run_test_defs base_config_def demo_engine_def post_action_def)
  obtain p2 where removed: "remove_all ?b [demo_container] p1 = (None, p2)"
    using up by (simp add: docker_backend_def stop_docker_container_def container_stop_def)
  from provisioned_runners_removed [OF render img config created ran ok removed]
  obtain out h' w' p' more where
    "closure demo_engine (logged ?b) plain_rendering one_action_config ''run-1'' Map.empty [] 0
       (demo_infra, [])
     = Some (out, h', w', (p', map Created [demo_container] @ map Removed [demo_container]
               @ map Removed more))"
    by blast
  moreover have "case closure demo_engine (logged ?b) plain_rendering one_action_config
      ''run-1'' Map.empty [] 0 (demo_infra, []) of
      Some (Inr st', h', w', (p', evs)) \<Rightarrow>
        length evs = 2 \<and> running p' = []
        \<and> map_option completed_cycles (summary_of h' st' ''t'') = Some 1
    | _ \<Rightarrow> False"
    by (simp add: infra_defs run_test_defs base_config_def demo_engine_def post_action_def
        Let_def string_of_nat.simps eval_nat_numeral)
  ultimately show ?thesis
    by (auto split: sum.splits)
qed

text \<open>
  C3. The claim is that a teardown error after the test body has executed is only logged
  and leaves the outcome as it was. The removal loop stands inside the closure's outer
  \<open>try\<close> with no handler of its own, so the \<open>RuntimeError\<close> that \<open>stop_kube_pod\<close>
  raises reaches the outer \<open>except\<close> and the summary is rebuilt from it. First, the
  test below executes one cycle and its summary has no error. Second, with a Kubernetes
  API that does not answer at teardown, the state the closure returns holds for the test
  an error summary with zero completed cycles and the teardown error's text, and the pod
  is left. Third, with an execution that raises, the inner \<open>except\<close> removes the pod,
  the loop after it removes it again, the second removal raises, and the returned summary
  carries the teardown error in place of the execution error.
\<close>

theorem teardown_error_alters_outcome:
  "(case run_test_with_timeout demo_engine one_action_config Map.empty [''rest-runner-1:50051'']
           (Some 15) [] 0 of
      Some (Inr st', tc', h', w') \<Rightarrow>
        map_option completed_cycles (summary_of h' st' ''t'') = Some 1
        \<and> map_option summary_error (summary_of h' st' ''t'') = Some None
    | _ \<Rightarrow> False)
   \<and> (case closure demo_engine kube_backend plain_rendering one_action_config ''run-1''
             Map.empty [] 0 (demo_infra\<lparr>kube_up := False\<rparr>) of
      Some (Inr st', h', w', p') \<Rightarrow>
        map_option completed_cycles (summary_of h' st' ''t'') = Some 0
        \<and> map_option summary_error (summary_of h' st' ''t'')
            = Some (Some ''Unable to stop pod rest-runner-1: (503) Service Unavailable'')
        \<and> pods p' = [''rest-runner-1'']
    | _ \<Rightarrow> False)
   \<and> (case closure failing_engine kube_backend plain_rendering one_action_config ''run-1''
             Map.empty [] 0 demo_infra of
      Some (Inr st', h', w', p') \<Rightarrow>
        map_option summary_error (summary_of h' st' ''t'')
            = Some (Some ''Unable to stop pod rest-runner-1: (404) Not Found'')
        \<and> pods p' = []
    | _ \<Rightarrow> False)"
  by (simp add: infra_defs run_test_defs base_config_def demo_engine_def failing_engine_def
      post_action_def Let_def)

text \<open>
  What the closure does with a teardown error in general: when the test execution has
  returned a state and removing a runner then raises, an exception of a class the closure
  catches becomes the error summary of the test, and any other one leaves the closure.
\<close>

lemma teardown_error_replaces_summary:
  assumes render: "render_section col test_config (deref h st) = Inr rendered"
    and img: "resolve_image rendered = Some img"
    and config: "render_config col (get_or (config_config rendered) []) (deref h st) = Inr config"
    and created: "provision b img (config_to_runner_env config) run_id (config_volumes rendered)
                    (nat (get_or (config_runnerCount rendered) 1)) [] p = (None, runners, p1)"
    and ran: "run_test_with_timeout eng rendered st (map (get_runner_hostname_fn b) runners)
                (Some (get_or (config_timeout rendered) 15)) h w
              = Some (Inr new_state, tc', h1, w1)"
    and teardown: "remove_all b runners p1 = (Some err, p2)"
  shows "(caught col err \<longrightarrow>
           (\<exists>st' h'. closure eng b col test_config run_id st h w p = Some (Inr st', h', w1, p2)
              \<and> summary_of h' st' (config_name test_config) =
                  Some \<lparr>summary_description = config_description test_config,
                        completed_cycles = 0, remaining_asserts = [],
                        summary_error = Some (str err), duration = 0,
                        summary_filename = config_filename test_config\<rparr>))
       \<and> (\<not> caught col err \<longrightarrow>
           closure eng b col test_config run_id st h w p = Some (Inl err, h1, w1, p2))"
  by (simp add: closure_def render img config created ran teardown
      outer_except_def summary_of_def error_entry_def)

end
